theory Spec2Isabelle
  imports Main
begin

section \<open>Strings\<close>

text \<open>
  Python \<open>str\<close> values are modelled as \<^typ>\<open>string\<close>, each character read as an ASCII
  code point. On that alphabet the regular-expression class \<open>\d\<close> is the ten digits
  \<open>0\<close>..\<open>9\<close> and \<open>str.lower\<close> changes the letters \<open>A\<close>..\<open>Z\<close> only.
\<close>

definition is_digit :: "char \<Rightarrow> bool" where
  "is_digit c = (c \<in> set ''0123456789'')"

definition digit_val :: "char \<Rightarrow> int" where
  "digit_val c = of_char c - 48"

text \<open>\<open>int(ds)\<close> for a text \<open>ds\<close> of decimal digits; Python integers are unbounded.\<close>

definition int_of_digits :: "string \<Rightarrow> int" where
  "int_of_digits ds = foldl (\<lambda>n c. 10 * n + digit_val c) 0 ds"

text \<open>\<open>s.startswith(p)\<close>.\<close>

definition startswith :: "string \<Rightarrow> string \<Rightarrow> bool" where
  "startswith p s = (take (length p) s = p)"

section \<open>The URL parser\<close>

text \<open>
  \<open>re.match(r"(https?://[^/]+)/courses/(\d+)", course_url)\<close>: the pattern is tried at
  the start of the text only, and nothing is required of what follows the match. The
  result is the pair of the two groups, or \<open>None\<close> when there is no match. The
  quantifiers are greedy; since the host class excludes the separator that must follow
  it, the first group is determined, and the second group is the longest run of digits.
\<close>

definition re_match_course :: "string \<Rightarrow> (string \<times> string) option" where
  "re_match_course s =
     (let scheme = (if startswith ''https://'' s then Some ''https://''
                    else if startswith ''http://'' s then Some ''http://''
                    else None)
      in case scheme of
           None \<Rightarrow> None
         | Some sch \<Rightarrow>
             (let r = drop (length sch) s;
                  host = takeWhile (\<lambda>c. c \<noteq> CHR ''/'') r;
                  r1 = dropWhile (\<lambda>c. c \<noteq> CHR ''/'') r;
                  ds = takeWhile is_digit (drop (length ''/courses/'') r1)
              in if host \<noteq> [] \<and> startswith ''/courses/'' r1 \<and> ds \<noteq> []
                 then Some (sch @ host, ds) else None))"

definition extract_url_parts :: "string \<Rightarrow> string option \<times> int option" where
  "extract_url_parts course_url =
     (case re_match_course course_url of
        Some (g1, g2) \<Rightarrow> (Some (g1 @ ''/''), Some (int_of_digits g2))
      | None \<Rightarrow> (None, None))"

text \<open>
  The pattern \<open>scheme://host/courses/{digits}\<close> of the contract, as a property of a
  whole text: a scheme, the separator \<open>://\<close>, a non-empty host without \<open>/\<close>, the
  segment \<open>/courses/\<close> and at least one digit, and nothing after the digits.
\<close>

definition url_pattern :: "string \<Rightarrow> bool" where
  "url_pattern s =
     (\<exists>scheme host ds.
        s = scheme @ ''://'' @ host @ ''/courses/'' @ ds \<and>
        scheme \<noteq> [] \<and> host \<noteq> [] \<and> CHR ''/'' \<notin> set host \<and>
        ds \<noteq> [] \<and> list_all is_digit ds)"

text \<open>
  What \<open>re.match\<close> asks of a text instead: it begins with the scheme \<open>http\<close> or
  \<open>https\<close>, the separator \<open>://\<close>, a non-empty host without \<open>/\<close>, the segment
  \<open>/courses/\<close> and at least one digit; \<open>rest\<close> is whatever follows.
\<close>

definition url_prefix :: "string \<Rightarrow> bool" where
  "url_prefix s =
     (\<exists>scheme host ds rest.
        s = scheme @ ''://'' @ host @ ''/courses/'' @ ds @ rest \<and>
        (scheme = ''http'' \<or> scheme = ''https'') \<and>
        host \<noteq> [] \<and> CHR ''/'' \<notin> set host \<and>
        ds \<noteq> [] \<and> list_all is_digit ds)"

section \<open>More string operations\<close>

definition lower_char :: "char \<Rightarrow> char" where
  "lower_char c =
     (case map_of (zip ''ABCDEFGHIJKLMNOPQRSTUVWXYZ'' ''abcdefghijklmnopqrstuvwxyz'') c of
        Some d \<Rightarrow> d | None \<Rightarrow> c)"

text \<open>\<open>s.lower()\<close>.\<close>

definition lower :: "string \<Rightarrow> string" where
  "lower s = map lower_char s"

text \<open>\<open>s.split(sep)\<close> for a separator of one character: the result is never empty.\<close>

fun split_on :: "char \<Rightarrow> string \<Rightarrow> string list" where
  "split_on sep [] = [[]]"
| "split_on sep (c # cs) =
     (if c = sep then [] # split_on sep cs
      else (case split_on sep cs of p # ps \<Rightarrow> (c # p) # ps | [] \<Rightarrow> [[c]]))"

text \<open>\<open>sub in s\<close>.\<close>

fun contains :: "string \<Rightarrow> string \<Rightarrow> bool" where
  "contains sub [] = (sub = [])"
| "contains sub (c # cs) = (startswith sub (c # cs) \<or> contains sub cs)"

text \<open>\<open>s.strip(cs)\<close>: the characters of \<open>cs\<close> are removed from both ends.\<close>

definition strip_chars :: "string \<Rightarrow> string \<Rightarrow> string" where
  "strip_chars cs s =
     rev (dropWhile (\<lambda>c. c \<in> set cs) (rev (dropWhile (\<lambda>c. c \<in> set cs) s)))"

text \<open>\<open>sep.join(xs)\<close>.\<close>

definition join :: "string \<Rightarrow> string list \<Rightarrow> string" where
  "join sep xs = (case xs of [] \<Rightarrow> [] | y # ys \<Rightarrow> foldl (\<lambda>acc x. acc @ sep @ x) y ys)"

text \<open>\<open>os.path.basename\<close>, \<open>os.path.splitext\<close> and \<open>os.path.join\<close> of two parts, for POSIX
  paths. \<open>splitext\<close> cuts at the last dot of the last path component, unless only dots
  precede it there.\<close>

definition basename :: "string \<Rightarrow> string" where
  "basename p = rev (takeWhile (\<lambda>c. c \<noteq> CHR ''/'') (rev p))"

definition splitext :: "string \<Rightarrow> string \<times> string" where
  "splitext p =
     (let tail = basename p in
      if CHR ''.'' \<in> set tail then
        (let after = rev (takeWhile (\<lambda>c. c \<noteq> CHR ''.'') (rev tail));
             stem = take (length tail - length after - 1) tail
         in if list_ex (\<lambda>c. c \<noteq> CHR ''.'') stem
            then (take (length p - length after - 1) p, CHR ''.'' # after)
            else (p, []))
      else (p, []))"

definition path_join :: "string \<Rightarrow> string \<Rightarrow> string" where
  "path_join a b =
     (if startswith ''/'' b then b
      else if a = [] \<or> last a = CHR ''/'' then a @ b
      else a @ ''/'' @ b)"

text \<open>\<open>str(n)\<close> for an integer.\<close>

fun str_of_nat :: "nat \<Rightarrow> string" where
  "str_of_nat n =
     (if n < 10 then [''0123456789'' ! n]
      else str_of_nat (n div 10) @ [''0123456789'' ! (n mod 10)])"

declare str_of_nat.simps [simp del]

definition str_of_int :: "int \<Rightarrow> string" where
  "str_of_int i = (if i < 0 then CHR ''-'' # str_of_nat (nat (- i)) else str_of_nat (nat i))"

text \<open>\<open>int(s)\<close> for a text: surrounding white space is dropped, a sign may lead, and
  single underscores may separate digits. \<open>None\<close> stands for the \<open>ValueError\<close>.\<close>

definition is_space :: "char \<Rightarrow> bool" where
  "is_space c = (c \<in> set [CHR 0x09, CHR 0x0A, CHR 0x0B, CHR 0x0C, CHR 0x0D,
                            CHR 0x1C, CHR 0x1D, CHR 0x1E, CHR 0x1F, CHR 0x20])"

fun digit_groups :: "string \<Rightarrow> bool" where
  "digit_groups [] = False"
| "digit_groups [c] = is_digit c"
| "digit_groups (c # d # cs) =
     (is_digit c \<and>
      (if d = CHR ''_'' then cs \<noteq> [] \<and> digit_groups cs else digit_groups (d # cs)))"

definition py_int :: "string \<Rightarrow> int option" where
  "py_int s =
     (let t = rev (dropWhile is_space (rev (dropWhile is_space s)));
          (neg, body) = (case t of
                           c # cs \<Rightarrow> if c = CHR ''-'' then (True, cs)
                                     else if c = CHR ''+'' then (False, cs) else (False, t)
                         | [] \<Rightarrow> (False, t))
      in if digit_groups body
         then (let n = int_of_digits (filter (\<lambda>c. c \<noteq> CHR ''_'') body)
               in Some (if neg then - n else n))
         else None)"

section \<open>Python values and exceptions\<close>

datatype pyval = PyNone | PyBool bool | PyInt int | PyStr string

text \<open>Truth value of a Python value, as \<open>not v\<close> and \<open>if v\<close> test it.\<close>

fun truthy :: "pyval \<Rightarrow> bool" where
  "truthy PyNone = False"
| "truthy (PyBool b) = b"
| "truthy (PyInt i) = (i \<noteq> 0)"
| "truthy (PyStr s) = (s \<noteq> [])"

text \<open>\<open>isinstance(v, int)\<close>; \<open>bool\<close> is a subclass of \<open>int\<close>.\<close>

fun is_int :: "pyval \<Rightarrow> bool" where
  "is_int (PyInt i) = True"
| "is_int (PyBool b) = True"
| "is_int _ = False"

text \<open>The text an f-string puts for a value.\<close>

fun py_str :: "pyval \<Rightarrow> string" where
  "py_str PyNone = ''None''"
| "py_str (PyBool b) = (if b then ''True'' else ''False'')"
| "py_str (PyInt i) = str_of_int i"
| "py_str (PyStr s) = s"

text \<open>The exception classes the program names or meets. \<open>OSError\<close> is an \<open>OSError\<close> of
  any subclass other than \<open>FileNotFoundError\<close>; \<open>OtherException\<close> is an exception of
  any class that is none of the others and no subclass of them, such as the
  \<open>DecompressionBombError\<close> of the imaging library or a \<open>UnicodeEncodeError\<close>.\<close>

datatype py_exn =
  FileNotFoundError | OSError | ImportError | ValueError | AttributeError | RequestException
  | OtherException

section \<open>The world outside the program\<close>

record image =
  img_mode :: string
  img_data :: string

record request =
  req_url :: string
  req_auth :: string
  req_params :: "(string \<times> string list) list option"
  req_stream :: bool

record attachment =
  att_filename :: "string option"
  att_url :: "string option"

text \<open>A submission record of the response body after JSON decoding; \<open>None\<close> is an
  absent key.\<close>

record submission =
  sub_user_name :: "string option"
  sub_user_id :: "int option"
  sub_submitted_at :: "string option"
  sub_comments :: "string option list"
  sub_late :: "bool option"
  sub_grade :: "string option"
  sub_excused :: "bool option"
  sub_attachments :: "attachment list"

text \<open>An HTTP response: \<open>resp_json\<close> is \<open>None\<close> when \<open>response.json()\<close> raises;
  \<open>resp_content\<close> is what \<open>iter_content\<close> delivers, and \<open>resp_stream_ok\<close> tells whether
  the stream ends without a \<open>RequestException\<close>.\<close>

record response =
  resp_status :: nat
  resp_retry_after :: "string option"
  resp_link :: "string option"
  resp_json :: "submission list option"
  resp_content :: string
  resp_stream_ok :: bool

text \<open>What the program does to its surroundings, in the order it does it.
  \<open>Downloaded p\<close> marks the end of the \<open>with open(p, 'wb')\<close> block of an attachment.\<close>

datatype event =
    HttpGet request
  | Sleep int
  | MakeDirs string
  | Downloaded string
  | ImageOpen string
  | ImportHeif
  | RegisterHeif
  | ImageConvert string
  | ImageSave string string
  | Remove string

record world =
  fs :: "string \<rightharpoonup> string"
  heif_registered :: bool
  manifest :: "pyval list list"
  trace :: "event list"

text \<open>
  The parts of the surroundings the program reads. The server's answer to a request may
  depend on everything that happened before it, so \<open>http\<close> takes the trace; \<open>None\<close> is
  a \<open>RequestException\<close> raised by \<open>requests.get\<close>. \<open>pil_decode\<close> is what \<open>Image.open\<close>
  makes of a file's content, given whether the HEIF opener is registered: an image, or
  the exception it raises (an \<open>OSError\<close> for a content that is not identified, but
  also exceptions of other classes, as for an image that is too large). \<open>pil_encode\<close>
  is the content \<open>Image.save\<close> writes for a format, or the exception the encoder
  raises; \<open>pil_partial\<close> is what a save whose encoder raised leaves at the
  destination, given what was there before (\<open>None\<close>: no file).
  \<open>heif_installed\<close> tells whether \<open>pillow_heif\<close> can be imported, \<open>writable\<close> whether a
  path can be created or opened for writing, and \<open>strptime\<close> is
  \<open>datetime.strptime(_, "%Y-%m-%dT%H:%M:%SZ")\<close>, as the text the manifest shows
  (\<open>None\<close>: a \<open>ValueError\<close>). \<open>print_error\<close> is the exception that printing a message
  raises, if any (the output cannot encode the message, or is closed), and \<open>csv_error\<close>
  the exception that \<open>csv_writer.writerow\<close> raises for a row, if any (a cell that
  cannot be encoded, a full disk). Of the messages that the program prints, the model
  has the one of line 181, which stands between the download of a file and its row;
  the other messages are taken to be printed without an exception.
\<close>

record env =
  http :: "event list \<Rightarrow> request \<Rightarrow> response option"
  pil_decode :: "bool \<Rightarrow> string \<Rightarrow> py_exn + image"
  pil_encode :: "string \<Rightarrow> image \<Rightarrow> py_exn + string"
  pil_partial :: "string \<Rightarrow> image \<Rightarrow> string option \<Rightarrow> string option"
  heif_installed :: bool
  writable :: "string \<Rightarrow> bool"
  strptime :: "string \<Rightarrow> string option"
  print_error :: "string \<Rightarrow> py_exn option"
  csv_error :: "pyval list \<Rightarrow> py_exn option"

definition emit :: "event \<Rightarrow> world \<Rightarrow> world" where
  "emit ev w = w\<lparr>trace := trace w @ [ev]\<rparr>"

section \<open>The image converter\<close>

text \<open>\<open>Image.open(p)\<close>: a missing file is a \<open>FileNotFoundError\<close>; for a file that is
  there, the image or the exception of the decoder.\<close>

definition Image_open :: "env \<Rightarrow> world \<Rightarrow> string \<Rightarrow> py_exn + image" where
  "Image_open e w p =
     (case fs w p of
        None \<Rightarrow> Inl FileNotFoundError
      | Some bytes \<Rightarrow> pil_decode e (heif_registered w) bytes)"

text \<open>\<open>img.save(path, fmt)\<close> opens the destination for writing, which empties a file
  that is already there, and then encodes. When the destination cannot be opened
  nothing is touched. When the encoder raises, the destination is left as the library
  leaves it (its current versions remove a file that the call created, and a file that
  was there before keeps what had been written so far); no other file is touched.\<close>

definition image_save ::
  "env \<Rightarrow> image \<Rightarrow> string \<Rightarrow> string \<Rightarrow> world \<Rightarrow> (py_exn + unit) \<times> world" where
  "image_save e img path fmt w =
     (let w1 = emit (ImageSave path fmt) w in
      if \<not> writable e path then (Inl OSError, w1)
      else (case pil_encode e fmt img of
              Inl x \<Rightarrow>
                (Inl x, w1\<lparr>fs := (fs w1)(path := pil_partial e fmt img (fs w1 path))\<rparr>)
            | Inr bytes \<Rightarrow> (Inr (), w1\<lparr>fs := (fs w1)(path \<mapsto> bytes)\<rparr>)))"

definition os_remove :: "string \<Rightarrow> world \<Rightarrow> (py_exn + unit) \<times> world" where
  "os_remove path w =
     (let w1 = emit (Remove path) w in
      case fs w path of
        None \<Rightarrow> (Inl FileNotFoundError, w1)
      | Some bytes \<Rightarrow> (Inr (), w1\<lparr>fs := (fs w1)(path := None)\<rparr>))"

text \<open>Lines 27 to 33: the inner \<open>try\<close>. \<open>Inr None\<close> is the \<open>return None\<close> of the
  \<open>ImportError\<close> handler.\<close>

definition heic_reopen ::
  "env \<Rightarrow> string \<Rightarrow> world \<Rightarrow> (py_exn + image option) \<times> world" where
  "heic_reopen e image_path w =
     (let w1 = emit ImportHeif w in
      if \<not> heif_installed e then (Inr None, w1)
      else
        (let w2 = (emit RegisterHeif w1)\<lparr>heif_registered := True\<rparr>;
             w3 = emit (ImageOpen image_path) w2
         in case Image_open e w3 image_path of
              Inl x \<Rightarrow> (Inl x, w3)
            | Inr img \<Rightarrow> (Inr (Some img), w3)))"

text \<open>\<open>img.save(new_path, fmt)\<close>, \<open>os.remove(image_path)\<close>, \<open>return new_path\<close>.\<close>

definition save_and_remove ::
  "env \<Rightarrow> image \<Rightarrow> string \<Rightarrow> string \<Rightarrow> string \<Rightarrow> world \<Rightarrow> (py_exn + string option) \<times> world" where
  "save_and_remove e img new_path fmt image_path w =
     (case image_save e img new_path fmt w of
        (Inl x, w1) \<Rightarrow> (Inl x, w1)
      | (Inr u, w1) \<Rightarrow>
          (case os_remove image_path w1 of
             (Inl x, w2) \<Rightarrow> (Inl x, w2)
           | (Inr u, w2) \<Rightarrow> (Inr (Some new_path), w2)))"

text \<open>Lines 23 and 24: the path of the converted file.\<close>

definition converted_path :: "string \<Rightarrow> string \<Rightarrow> string" where
  "converted_path image_path output_format =
     (let (base, ext) = splitext image_path in base @ ''.'' @ lower output_format)"

text \<open>The body of the outer \<open>try\<close> of \<open>convert_image\<close>, lines 22 to 45.\<close>

definition convert_image_body ::
  "env \<Rightarrow> string \<Rightarrow> string \<Rightarrow> world \<Rightarrow> (py_exn + string option) \<times> world" where
  "convert_image_body e image_path output_format w =
     (let w1 = emit (ImageOpen image_path) w in
      case Image_open e w1 image_path of
        Inl x \<Rightarrow> (Inl x, w1)
      | Inr img0 \<Rightarrow>
          (let (base, ext) = splitext image_path;
               new_path = converted_path image_path output_format;
               (r, w2) = (if lower ext = ''.heic'' then heic_reopen e image_path w1
                          else (Inr (Some img0), w1))
           in case r of
                Inl x \<Rightarrow> (Inl x, w2)
              | Inr None \<Rightarrow> (Inr None, w2)
              | Inr (Some img) \<Rightarrow>
                  if lower output_format = ''jpg'' then
                    save_and_remove e (img\<lparr>img_mode := ''RGB''\<rparr>) new_path ''JPEG'' image_path
                      (emit (ImageConvert ''RGB'') w2)
                  else if lower output_format = ''png'' then
                    save_and_remove e img new_path ''PNG'' image_path w2
                  else (Inr None, w2)))"

text \<open>The handler \<open>except (FileNotFoundError, OSError)\<close> turns these two into the result
  \<open>None\<close>; any other exception leaves the function.\<close>

definition convert_image ::
  "env \<Rightarrow> string \<Rightarrow> string \<Rightarrow> world \<Rightarrow> (py_exn + string option) \<times> world" where
  "convert_image e image_path output_format w =
     (case convert_image_body e image_path output_format w of
        (Inl x, w') \<Rightarrow>
          if x = FileNotFoundError \<or> x = OSError then (Inr None, w') else (Inl x, w')
      | (Inr r, w') \<Rightarrow> (Inr r, w'))"

section \<open>The link header\<close>

text \<open>Lines 198 to 205. An entry of the header is taken for the next page when it has
  exactly two parts around \<open>;\<close> and the second contains \<open>rel="next"\<close>; the first such
  entry gives the address.\<close>

definition is_next_link :: "string \<Rightarrow> bool" where
  "is_next_link l =
     (let parts = split_on (CHR '';'') l
      in length parts = 2 \<and> contains ''rel=\"next\"'' (parts ! 1))"

definition link_target :: "string \<Rightarrow> string" where
  "link_target l = strip_chars ''<> '' (split_on (CHR '';'') l ! 0)"

fun find_next :: "string list \<Rightarrow> string option" where
  "find_next [] = None"
| "find_next (l # ls) = (if is_next_link l then Some (link_target l) else find_next ls)"

definition next_url :: "string option \<Rightarrow> string option" where
  "next_url links =
     (case links of
        None \<Rightarrow> None
      | Some l \<Rightarrow> if l = [] then None else find_next (split_on (CHR '','') l))"


section \<open>Downloading the submissions\<close>

text \<open>The header that line 112 writes to the manifest; these nine fixed texts are taken
  to be written without an exception.\<close>

definition csv_header :: "pyval list" where
  "csv_header = map PyStr
     [''Student Name'', ''Canvas ID'', ''Original Filename'', ''Renamed Filename'',
      ''Submission Date'', ''Submission Comment'', ''Late'', ''Grade'', ''Excused'']"

text \<open>Lines 88 to 95: the exception the checks raise, if any. \<open>base_url.startswith\<close> on
  a value that is no text is an \<open>AttributeError\<close>.\<close>

definition validate_inputs :: "pyval \<Rightarrow> pyval \<Rightarrow> pyval \<Rightarrow> pyval \<Rightarrow> py_exn option" where
  "validate_inputs api_key base_url course_id assignment_id =
     (if \<not> truthy api_key \<or> \<not> truthy base_url \<or> \<not> truthy course_id \<or> \<not> truthy assignment_id
      then Some ValueError
      else (case base_url of
              PyStr b \<Rightarrow>
                if \<not> startswith ''https://'' b then Some ValueError
                else if \<not> is_int course_id then Some ValueError
                else if \<not> is_int assignment_id then Some ValueError
                else None
            | _ \<Rightarrow> Some AttributeError))"

text \<open>What stays fixed during a run: the \<open>Authorization\<close> header, the query parameters,
  the output directory and the target format.\<close>

record ctx =
  c_auth :: string
  c_params :: "(string \<times> string list) list"
  c_output_path :: string
  c_convert_to :: "string option"

definition assignment_params :: "(string \<times> string list) list" where
  "assignment_params =
     [(''include[]'', [''user'', ''submission_comments'']), (''per_page'', [''100''])]"

definition http_get :: "env \<Rightarrow> request \<Rightarrow> world \<Rightarrow> response option \<times> world" where
  "http_get e rq w = (http e (trace w) rq, emit (HttpGet rq) w)"

text \<open>\<open>raise_for_status()\<close> raises for the status codes 400 to 599.\<close>

definition status_error :: "response \<Rightarrow> bool" where
  "status_error r = (400 \<le> resp_status r \<and> resp_status r < 600)"

text \<open>The request of line 122, with the query parameters, and the one of line 167.\<close>

definition page_request :: "ctx \<Rightarrow> string \<Rightarrow> request" where
  "page_request c u =
     \<lparr>req_url = u, req_auth = c_auth c, req_params = Some (c_params c), req_stream = False\<rparr>"

definition download_request :: "ctx \<Rightarrow> string \<Rightarrow> request" where
  "download_request c u =
     \<lparr>req_url = u, req_auth = c_auth c, req_params = None, req_stream = True\<rparr>"

text \<open>The values of lines 141 to 150 that every row of a submission shares.\<close>

record sub_info =
  si_student_name :: string
  si_canvas_id :: pyval
  si_date :: pyval
  si_comment :: string
  si_late :: pyval
  si_grade :: pyval
  si_excused :: pyval

text \<open>The row of lines 184 to 188.\<close>

definition manifest_row :: "sub_info \<Rightarrow> string \<Rightarrow> string \<Rightarrow> pyval list" where
  "manifest_row si original_filename renamed_filename =
     [PyStr (si_student_name si), si_canvas_id si, PyStr original_filename,
      PyStr renamed_filename, si_date si, PyStr (si_comment si),
      si_late si, si_grade si, si_excused si]"

text \<open>\<open>csv_writer.writerow(row)\<close>: the row is added to the manifest, unless the call
  raises.\<close>

definition writerow :: "env \<Rightarrow> pyval list \<Rightarrow> world \<Rightarrow> (py_exn + unit) \<times> world" where
  "writerow e row w =
     (case csv_error e row of
        Some x \<Rightarrow> (Inl x, w)
      | None \<Rightarrow> (Inr (), w\<lparr>manifest := manifest w @ [row]\<rparr>))"

text \<open>Lines 174 to 188, once the file is on disk: the conversion, the message of line
  181 when it gave \<open>None\<close>, and the row. Each of the three can raise, and then what
  follows it is not done.\<close>

definition convert_and_record ::
  "env \<Rightarrow> ctx \<Rightarrow> sub_info \<Rightarrow> string \<Rightarrow> string \<Rightarrow> string \<Rightarrow> world \<Rightarrow> (py_exn + unit) \<times> world" where
  "convert_and_record e c si original_filename renamed_filename file_path w =
     (let (r, w1) =
        (case c_convert_to c of
           None \<Rightarrow> (Inr renamed_filename, w)
         | Some fmt \<Rightarrow>
             if fmt = [] then (Inr renamed_filename, w)
             else (case convert_image e file_path fmt w of
                     (Inl x, w') \<Rightarrow> (Inl x, w')
                   | (Inr (Some new_path), w') \<Rightarrow> (Inr (basename new_path), w')
                   | (Inr None, w') \<Rightarrow>
                       (case print_error e (''Conversion failed for '' @ original_filename @
                                            ''. Keeping original.'') of
                          Some x \<Rightarrow> (Inl x, w')
                        | None \<Rightarrow> (Inr renamed_filename, w'))))
      in case r of
           Inl x \<Rightarrow> (Inl x, w1)
         | Inr name \<Rightarrow> writerow e (manifest_row si original_filename name) w1)"

text \<open>Lines 155 to 194: one attachment. Every exception is caught, at line 191 or at
  line 193, so the result is the world alone; an exception raised after the file was
  written and before the row leaves the file without a row. (The messages of lines 160
  and 189 come without a change of the world whether they can be printed or not, since
  line 193 catches what printing them raises.)\<close>

definition process_attachment :: "env \<Rightarrow> ctx \<Rightarrow> sub_info \<Rightarrow> attachment \<Rightarrow> world \<Rightarrow> world" where
  "process_attachment e c si a w =
     (case (att_filename a, att_url a) of
        (Some original_filename, Some download_url) \<Rightarrow>
          if original_filename = [] \<or> download_url = [] then w
          else
            (let renamed_filename = py_str (si_canvas_id si) @ ''_'' @ original_filename;
                 file_path = path_join (c_output_path c) renamed_filename;
                 (resp, w1) = http_get e (download_request c download_url) w
             in case resp of
                  None \<Rightarrow> w1
                | Some r \<Rightarrow>
                    if status_error r then w1
                    else if \<not> writable e file_path then w1
                    else
                      (let w2 = w1\<lparr>fs := (fs w1)(file_path \<mapsto> resp_content r)\<rparr>
                       in if \<not> resp_stream_ok r then w2
                          else snd (convert_and_record e c si original_filename
                                      renamed_filename file_path
                                      (emit (Downloaded file_path) w2))))
      | _ \<Rightarrow> w)"

definition process_attachments ::
  "env \<Rightarrow> ctx \<Rightarrow> sub_info \<Rightarrow> attachment list \<Rightarrow> world \<Rightarrow> world" where
  "process_attachments e c si atts w = fold (process_attachment e c si) atts w"

text \<open>Lines 140 to 194: one submission. A timestamp that \<open>strptime\<close> rejects raises a
  \<open>ValueError\<close> that only the handler of the page loop catches.\<close>

definition process_submission ::
  "env \<Rightarrow> ctx \<Rightarrow> submission \<Rightarrow> world \<Rightarrow> (py_exn + unit) \<times> world" where
  "process_submission e c s w =
     (let student_name = (case sub_user_name s of None \<Rightarrow> ''Unknown'' | Some n \<Rightarrow> n);
          canvas_id = (case sub_user_id s of None \<Rightarrow> PyStr ''Unknown'' | Some i \<Rightarrow> PyInt i);
          date = (case sub_submitted_at s of
                    None \<Rightarrow> Inr (PyStr ''No Submission'')
                  | Some t \<Rightarrow>
                      if t = [] then Inr (PyStr ''No Submission'')
                      else (case strptime e t of
                              None \<Rightarrow> Inl ValueError
                            | Some d \<Rightarrow> Inr (PyStr d)))
      in case date of
           Inl x \<Rightarrow> (Inl x, w)
         | Inr submission_date \<Rightarrow>
             (Inr (),
              process_attachments e c
                \<lparr>si_student_name = student_name,
                 si_canvas_id = canvas_id,
                 si_date = submission_date,
                 si_comment = join ''; ''
                    (map (\<lambda>cm. case cm of None \<Rightarrow> [] | Some t \<Rightarrow> t) (sub_comments s)),
                 si_late = PyBool (case sub_late s of None \<Rightarrow> False | Some b \<Rightarrow> b),
                 si_grade = (case sub_grade s of None \<Rightarrow> PyNone | Some g \<Rightarrow> PyStr g),
                 si_excused = PyBool (case sub_excused s of None \<Rightarrow> False | Some b \<Rightarrow> b)\<rparr>
                (sub_attachments s) w))"

fun process_submissions ::
  "env \<Rightarrow> ctx \<Rightarrow> submission list \<Rightarrow> world \<Rightarrow> (py_exn + unit) \<times> world" where
  "process_submissions e c [] w = (Inr (), w)"
| "process_submissions e c (s # ss) w =
     (case process_submission e c s w of
        (Inl x, w') \<Rightarrow> (Inl x, w')
      | (Inr u, w') \<Rightarrow> process_submissions e c ss w')"

text \<open>One turn of the loop of line 119, for a page address that is not empty: the loop
  goes on with a page address (\<open>Continue\<close>, by \<open>continue\<close> or by reaching the end of the
  body) or is left by \<open>break\<close>. \<open>time.sleep\<close> raises a \<open>ValueError\<close> for a negative
  argument; the upper limit of the platform's timer is not modelled.\<close>

datatype step = Continue "string option" | Break

definition fetch_step :: "env \<Rightarrow> ctx \<Rightarrow> string \<Rightarrow> world \<Rightarrow> step \<times> world" where
  "fetch_step e c assignment_url w =
     (let (resp, w1) = http_get e (page_request c assignment_url) w in
      case resp of
        None \<Rightarrow> (Break, w1)
      | Some r \<Rightarrow>
          (case resp_retry_after r of
             Some v \<Rightarrow>
               (case py_int v of
                  None \<Rightarrow> (Break, w1)
                | Some wait_time \<Rightarrow>
                    if wait_time < 0 then (Break, w1)
                    else (Continue (Some assignment_url), emit (Sleep wait_time) w1))
           | None \<Rightarrow>
               if status_error r then (Break, w1)
               else (case resp_json r of
                       None \<Rightarrow> (Break, w1)
                     | Some submissions \<Rightarrow>
                         (case process_submissions e c submissions w1 of
                            (Inl x, w2) \<Rightarrow> (Break, w2)
                          | (Inr u, w2) \<Rightarrow> (Continue (next_url (resp_link r)), w2)))))"

text \<open>The loop \<open>while assignment_url:\<close>. It may run for ever (a server that always asks
  to retry, or whose pages point at each other), so the model counts turns: \<open>OutOfFuel\<close>
  says that the loop was still running after \<open>fuel\<close> turns.\<close>

datatype loop_end = Finished | Broke | OutOfFuel

fun fetch_loop :: "env \<Rightarrow> ctx \<Rightarrow> nat \<Rightarrow> string option \<Rightarrow> world \<Rightarrow> loop_end \<times> world" where
  "fetch_loop e c fuel None w = (Finished, w)"
| "fetch_loop e c 0 (Some u) w = (if u = [] then (Finished, w) else (OutOfFuel, w))"
| "fetch_loop e c (Suc n) (Some u) w =
     (if u = [] then (Finished, w)
      else (case fetch_step e c u w of
              (Break, w') \<Rightarrow> (Broke, w')
            | (Continue url', w') \<Rightarrow> fetch_loop e c n url' w'))"

definition download_submissions ::
  "env \<Rightarrow> nat \<Rightarrow> pyval \<Rightarrow> pyval \<Rightarrow> pyval \<Rightarrow> pyval \<Rightarrow> string \<Rightarrow> string option \<Rightarrow> world
     \<Rightarrow> (py_exn + loop_end) \<times> world" where
  "download_submissions e fuel api_key base_url course_id assignment_id output_path convert_to w =
     (case validate_inputs api_key base_url course_id assignment_id of
        Some x \<Rightarrow> (Inl x, w)
      | None \<Rightarrow>
          (let c = \<lparr>c_auth = ''Bearer '' @ py_str api_key, c_params = assignment_params,
                    c_output_path = output_path, c_convert_to = convert_to\<rparr>;
               assignment_url = py_str base_url @ ''api/v1/courses/'' @ py_str course_id @
                  ''/assignments/'' @ py_str assignment_id @ ''/submissions'';
               w1 = emit (MakeDirs output_path) w
           in if \<not> writable e output_path then (Inl OSError, w1)
              else if \<not> writable e (path_join output_path ''submissions.csv'')
              then (Inl OSError, w1)
              else (let (r, w2) = fetch_loop e c fuel (Some assignment_url)
                                    (w1\<lparr>manifest := [csv_header]\<rparr>)
                    in (Inr r, w2))))"

text \<open>The world after lines 22 to 30 for a HEIC source whose first opening succeeded, when
  the HEIF extension is installed.\<close>

definition heic_world :: "string \<Rightarrow> world \<Rightarrow> world" where
  "heic_world p w =
     emit (ImageOpen p)
       ((emit RegisterHeif (emit ImportHeif (emit (ImageOpen p) w)))\<lparr>heif_registered := True\<rparr>)"

section \<open>A sample environment\<close>

text \<open>An environment without network in which every file content is an image of mode
  \<open>P\<close>, every image can be written in every format, every path is writable, the HEIF
  extension is missing, and printing and writing rows never fail; and a world holding
  the given files.\<close>

definition example_env :: env where
  "example_env =
     \<lparr>http = (\<lambda>tr rq. None),
      pil_decode = (\<lambda>reg bytes. Inr \<lparr>img_mode = ''P'', img_data = bytes\<rparr>),
      pil_encode = (\<lambda>fmt img. Inr (fmt @ '':'' @ img_mode img @ '':'' @ img_data img)),
      pil_partial = (\<lambda>fmt img old. case old of None \<Rightarrow> None | Some bytes \<Rightarrow> Some []),
      heif_installed = False,
      writable = (\<lambda>p. True),
      strptime = (\<lambda>t. Some t),
      print_error = (\<lambda>m. None),
      csv_error = (\<lambda>row. None)\<rparr>"

text \<open>The same with the HEIF extension installed and an imaging library that can read a
  file only once the HEIF opener is registered, as it is for a file in that encoding;
  and the same with an imaging library that refuses every file as too large.\<close>

definition heic_env :: env where
  "heic_env =
     example_env\<lparr>pil_decode := (\<lambda>reg bytes. if reg then Inr \<lparr>img_mode = ''RGB'', img_data = bytes\<rparr>
                                             else Inl OSError),
                 heif_installed := True\<rparr>"


definition example_world :: "(string \<times> string) list \<Rightarrow> world" where
  "example_world files =
     \<lparr>fs = map_of files, heif_registered = False, manifest = [], trace = []\<rparr>"

text \<open>A server that answers by address with the responses of a table, and fails to
  answer for any other address; a page of submissions with a link header; the answer
  to the download of a file; a request to retry later; sample values for a run.\<close>

definition server_env :: "(string \<times> response) list \<Rightarrow> env" where
  "server_env table = example_env\<lparr>http := (\<lambda>tr rq. map_of table (req_url rq))\<rparr>"

definition page :: "string option \<Rightarrow> submission list \<Rightarrow> response" where
  "page l subs =
     \<lparr>resp_status = 200, resp_retry_after = None, resp_link = l, resp_json = Some subs,
      resp_content = [], resp_stream_ok = True\<rparr>"



definition example_ctx :: ctx where
  "example_ctx =
     \<lparr>c_auth = ''Bearer key'', c_params = assignment_params, c_output_path = ''out'',
      c_convert_to = None\<rparr>"







text \<open>The pages of a listing, each pointing at the next one in its link header, the
  last one without a link header; and the address of the first page of assignment 2 of
  course 1 on the host \<open>h\<close>.\<close>

fun chain :: "string list \<Rightarrow> (string \<times> response) list" where
  "chain [] = []"
| "chain [u] = [(u, page None [])]"
| "chain (u # v # us) = (u, page (Some (''<'' @ v @ ''>; rel=\"next\"'')) []) # chain (v # us)"

definition first_page :: string where
  "first_page = ''https://h/api/v1/courses/1/assignments/2/submissions''"

section \<open>Reading the trace\<close>

text \<open>The number of attachments written to disk so far, and the HTTP requests sent so
  far, in order.\<close>

fun is_download :: "event \<Rightarrow> bool" where
  "is_download (Downloaded p) = True"
| "is_download ev = False"

definition downloads :: "world \<Rightarrow> nat" where
  "downloads w = length (filter is_download (trace w))"

fun get_of :: "event \<Rightarrow> request option" where
  "get_of (HttpGet rq) = Some rq"
| "get_of ev = None"

definition http_requests :: "world \<Rightarrow> request list" where
  "http_requests w = List.map_filter get_of (trace w)"

text \<open>\<open>grows P w w'\<close>: the world \<open>w'\<close> has the trace of \<open>w\<close> followed by events that all
  satisfy \<open>P\<close>. \<open>emits P c\<close>: \<open>P\<close> holds for every event a run with the fixed values \<open>c\<close>
  can add to the trace.\<close>

definition grows :: "(event \<Rightarrow> bool) \<Rightarrow> world \<Rightarrow> world \<Rightarrow> bool" where
  "grows P w w' = (\<exists>post. trace w' = trace w @ post \<and> list_all P post)"

definition emits :: "(event \<Rightarrow> bool) \<Rightarrow> ctx \<Rightarrow> bool" where
  "emits P c =
     ((\<forall>u. P (HttpGet (page_request c u))) \<and> (\<forall>u. P (HttpGet (download_request c u))) \<and>
      (\<forall>n. P (Sleep n)) \<and> (\<forall>p. P (Downloaded p)) \<and> (\<forall>p. P (ImageOpen p)) \<and>
      P ImportHeif \<and> P RegisterHeif \<and> (\<forall>m. P (ImageConvert m)) \<and>
      (\<forall>p f. P (ImageSave p f)) \<and> (\<forall>p. P (Remove p)))"

text \<open>\<open>covered w w'\<close>: from \<open>w\<close> to \<open>w'\<close> the manifest lost no row and gained at most as
  many rows as attachments were written to disk. \<open>balanced w w'\<close>: it gained exactly as
  many.\<close>

definition covered :: "world \<Rightarrow> world \<Rightarrow> bool" where
  "covered w w' =
     (length (manifest w) \<le> length (manifest w') \<and>
      length (manifest w') + downloads w \<le> length (manifest w) + downloads w')"

definition balanced :: "world \<Rightarrow> world \<Rightarrow> bool" where
  "balanced w w' =
     (length (manifest w') + downloads w = length (manifest w) + downloads w')"

text \<open>\<open>reliable e\<close>: in the environment \<open>e\<close> nothing that is done between the download
  of a file and its row raises an exception that reaches the handler of line 193: the
  imaging library raises only exceptions of the classes that \<open>convert_image\<close> handles,
  and printing a message and writing a row do not raise.\<close>

definition reliable :: "env \<Rightarrow> bool" where
  "reliable e =
     ((\<forall>reg bytes x. pil_decode e reg bytes = Inl x \<longrightarrow> x = FileNotFoundError \<or> x = OSError) \<and>
      (\<forall>fmt img x. pil_encode e fmt img = Inl x \<longrightarrow> x = FileNotFoundError \<or> x = OSError) \<and>
      (\<forall>m. print_error e m = None) \<and>
      (\<forall>row. csv_error e row = None))"

definition tally :: "env \<Rightarrow> world \<Rightarrow> world \<Rightarrow> bool" where
  "tally e w w' = (covered w w' \<and> (reliable e \<longrightarrow> balanced w w'))"

text \<open>The world in which lines 174 to 188 run for an attachment: the request of line
  167 was sent, its content was written to the file, and the file was closed.\<close>

definition downloaded_world :: "ctx \<Rightarrow> string \<Rightarrow> string \<Rightarrow> string \<Rightarrow> world \<Rightarrow> world" where
  "downloaded_world c url file_path bytes w =
     emit (Downloaded file_path)
       ((emit (HttpGet (download_request c url)) w)
          \<lparr>fs := (fs (emit (HttpGet (download_request c url)) w))(file_path \<mapsto> bytes)\<rparr>)"

text \<open>\<open>carries c ev\<close>: if the event \<open>ev\<close> is an HTTP request, it is a download without
  query parameters or a request with the query parameters of \<open>c\<close>.\<close>

definition carries :: "ctx \<Rightarrow> event \<Rightarrow> bool" where
  "carries c ev =
     (case get_of ev of
        None \<Rightarrow> True
      | Some rq \<Rightarrow> if req_stream rq then req_params rq = None
                   else req_params rq = Some (c_params c))"

section \<open>Properties of the URL parser\<close>

lemma startswith_append [simp]: "startswith p (p @ s)"
  by (simp add: startswith_def)

lemma startswithD: "startswith p s \<Longrightarrow> s = p @ drop (length p) s"
  unfolding startswith_def by (metis append_take_drop_id)

lemma host_takeWhile:
  "CHR ''/'' \<notin> set host \<Longrightarrow>
   takeWhile (\<lambda>c. c \<noteq> CHR ''/'') (host @ CHR ''/'' # t) = host"
  by (induction host) auto

lemma host_dropWhile:
  "CHR ''/'' \<notin> set host \<Longrightarrow>
   dropWhile (\<lambda>c. c \<noteq> CHR ''/'') (host @ CHR ''/'' # t) = CHR ''/'' # t"
  by (induction host) auto

lemma digits_takeWhile:
  "list_all is_digit ds \<Longrightarrow> takeWhile is_digit (ds @ rest) = ds @ takeWhile is_digit rest"
  by (induction ds) auto

lemma re_match_course_prefix:
  assumes "scheme = ''http'' \<or> scheme = ''https''"
    and "host \<noteq> []" and "CHR ''/'' \<notin> set host"
    and "ds \<noteq> []" and "list_all is_digit ds"
  shows "re_match_course (scheme @ ''://'' @ host @ ''/courses/'' @ ds @ rest) =
           Some (scheme @ ''://'' @ host, ds @ takeWhile is_digit rest)"
proof -
  let ?t = "''courses/'' @ ds @ rest"
  have tw: "takeWhile (\<lambda>c. c \<noteq> CHR ''/'') (host @ CHR ''/'' # ?t) = host"
    and dw: "dropWhile (\<lambda>c. c \<noteq> CHR ''/'') (host @ CHR ''/'' # ?t) = CHR ''/'' # ?t"
    using assms(3) by (rule host_takeWhile, rule host_dropWhile)
  have dg: "takeWhile is_digit (ds @ rest) = ds @ takeWhile is_digit rest"
    using assms(5) by (rule digits_takeWhile)
  from assms(1) show ?thesis
  proof
    assume "scheme = ''http''"
    then show ?thesis
      using tw dw dg assms(2,4)
      by (simp add: re_match_course_def startswith_def Let_def)
  next
    assume "scheme = ''https''"
    then show ?thesis
      using tw dw dg assms(2,4)
      by (simp add: re_match_course_def startswith_def Let_def)
  qed
qed

lemma re_match_course_pattern:
  assumes "re_match_course s = Some (g1, g2)"
  shows "url_prefix s"
proof -
  define sch where
    "sch = (if startswith ''https://'' s then ''https://'' else ''http://'')"
  define r where "r = drop (length sch) s"
  define host where "host = takeWhile (\<lambda>c. c \<noteq> CHR ''/'') r"
  define r1 where "r1 = dropWhile (\<lambda>c. c \<noteq> CHR ''/'') r"
  define r2 where "r2 = drop (length ''/courses/'') r1"
  define ds where "ds = takeWhile is_digit r2"
  from assms have sw: "startswith sch s"
    and ok: "host \<noteq> []" "startswith ''/courses/'' r1" "ds \<noteq> []"
    unfolding re_match_course_def sch_def r_def host_def r1_def r2_def ds_def
    by (auto simp: Let_def split: if_splits)
  have s: "s = sch @ r"
    using startswithD [OF sw] by (simp add: r_def)
  have r: "r = host @ r1"
    by (simp add: host_def r1_def)
  have r1: "r1 = ''/courses/'' @ r2"
    using startswithD [OF ok(2)] by (simp add: r2_def)
  have r2: "r2 = ds @ dropWhile is_digit r2"
    by (simp add: ds_def)
  have nosep: "CHR ''/'' \<notin> set host"
    unfolding host_def by (auto dest: set_takeWhileD)
  have digs: "list_all is_digit ds"
    unfolding ds_def list_all_iff by (auto dest: set_takeWhileD)
  define scheme where "scheme = (if startswith ''https://'' s then ''https'' else ''http'')"
  have "sch = scheme @ ''://''"
    by (simp add: sch_def scheme_def)
  with s r r1 r2
  have "s = scheme @ ''://'' @ host @ ''/courses/'' @ ds @ dropWhile is_digit r2"
    by (metis append.assoc)
  moreover have "scheme = ''http'' \<or> scheme = ''https''"
    by (simp add: scheme_def)
  ultimately show ?thesis
    unfolding url_prefix_def using ok(1,3) nosep digs by blast
qed

lemma url_prefix_re_match:
  assumes "url_prefix s"
  shows "re_match_course s \<noteq> None"
proof -
  from assms obtain scheme host ds rest where
    "s = scheme @ ''://'' @ host @ ''/courses/'' @ ds @ rest"
    "scheme = ''http'' \<or> scheme = ''https''"
    "host \<noteq> []" "CHR ''/'' \<notin> set host" "ds \<noteq> []" "list_all is_digit ds"
    unfolding url_prefix_def by blast
  then show ?thesis
    using re_match_course_prefix [of scheme host ds rest] by simp
qed

lemma extract_url_parts_sentinel:
  "extract_url_parts s = (None, None) \<longleftrightarrow> \<not> url_prefix s"
proof (cases "re_match_course s")
  case None
  with url_prefix_re_match [of s] show ?thesis
    by (auto simp: extract_url_parts_def)
next
  case (Some g)
  then have "url_prefix s"
    by (cases g) (auto dest: re_match_course_pattern)
  with Some show ?thesis
    by (cases g) (simp add: extract_url_parts_def)
qed

lemma url_pattern_last:
  assumes "url_pattern s"
  shows "is_digit (last s)"
proof -
  from assms obtain scheme host ds where
    s: "s = scheme @ ''://'' @ host @ ''/courses/'' @ ds"
    and ds: "ds \<noteq> []" "list_all is_digit ds"
    unfolding url_pattern_def by blast
  from s ds(1) have "last s = last ds" by simp
  with ds show ?thesis by (simp add: list_all_iff)
qed

text \<open>
  C7, as the code has it. For the well-formed URL \<open>https://host/courses/123\<close> the
  parser returns the base address with a trailing separator and the course id as an
  integer, \<open>("https://host/", 123)\<close>. It returns the sentinel pair \<open>(None, None)\<close>
  exactly for the texts that do not begin with \<open>http://\<close> or \<open>https://\<close>, a non-empty
  host, \<open>/courses/\<close> and a digit; a text that matches the pattern
  \<open>scheme://host/courses/{digits}\<close> as a whole, with the scheme \<open>http\<close> or \<open>https\<close>,
  gives its base address and its digits as the course id.
\<close>

theorem extract_url_parts_contract:
  "extract_url_parts ''https://host/courses/123'' = (Some ''https://host/'', Some 123) \<and>
   (\<forall>s. extract_url_parts s = (None, None) \<longleftrightarrow> \<not> url_prefix s) \<and>
   (\<forall>scheme host ds.
      (scheme = ''http'' \<or> scheme = ''https'') \<and> host \<noteq> [] \<and> CHR ''/'' \<notin> set host \<and>
      ds \<noteq> [] \<and> list_all is_digit ds \<longrightarrow>
      url_pattern (scheme @ ''://'' @ host @ ''/courses/'' @ ds) \<and>
      extract_url_parts (scheme @ ''://'' @ host @ ''/courses/'' @ ds) =
        (Some (scheme @ ''://'' @ host @ ''/''), Some (int_of_digits ds)))"
proof (intro conjI allI impI)
  show "extract_url_parts ''https://host/courses/123'' = (Some ''https://host/'', Some 123)"
    by (simp add: extract_url_parts_def re_match_course_def startswith_def Let_def
        is_digit_def int_of_digits_def digit_val_def)
next
  fix s show "extract_url_parts s = (None, None) \<longleftrightarrow> \<not> url_prefix s"
    by (rule extract_url_parts_sentinel)
next
  fix scheme host ds :: string
  assume h: "(scheme = ''http'' \<or> scheme = ''https'') \<and> host \<noteq> [] \<and> CHR ''/'' \<notin> set host \<and>
      ds \<noteq> [] \<and> list_all is_digit ds"
  then have "scheme \<noteq> []" by auto
  with h show "url_pattern (scheme @ ''://'' @ host @ ''/courses/'' @ ds)"
    unfolding url_pattern_def by blast
next
  fix scheme host ds :: string
  assume h: "(scheme = ''http'' \<or> scheme = ''https'') \<and> host \<noteq> [] \<and> CHR ''/'' \<notin> set host \<and>
      ds \<noteq> [] \<and> list_all is_digit ds"
  then have "re_match_course (scheme @ ''://'' @ host @ ''/courses/'' @ ds @ []) =
      Some (scheme @ ''://'' @ host, ds @ takeWhile is_digit [])"
    by (intro re_match_course_prefix) simp_all
  then show "extract_url_parts (scheme @ ''://'' @ host @ ''/courses/'' @ ds) =
        (Some (scheme @ ''://'' @ host @ ''/''), Some (int_of_digits ds))"
    by (simp add: extract_url_parts_def)
qed

text \<open>The text \<open>https://host/courses/123abc\<close> does not match the pattern, since it does
  not end with a digit, and yet it is not answered with the sentinel pair.\<close>

theorem extract_url_parts_contract_counterexample:
  "\<not> url_pattern ''https://host/courses/123abc'' \<and>
   extract_url_parts ''https://host/courses/123abc'' = (Some ''https://host/'', Some 123)"
proof
  have "\<not> is_digit (last ''https://host/courses/123abc'')"
    by (simp add: is_digit_def)
  then show "\<not> url_pattern ''https://host/courses/123abc''"
    using url_pattern_last by blast
next
  show "extract_url_parts ''https://host/courses/123abc'' = (Some ''https://host/'', Some 123)"
    by (simp add: extract_url_parts_def re_match_course_def startswith_def Let_def
        is_digit_def int_of_digits_def digit_val_def)
qed

theorem extract_url_parts_contract_witness:
  "\<not> url_prefix ''ftp://host/courses/123'' \<and>
   extract_url_parts ''ftp://host/courses/123'' = (None, None) \<and>
   url_pattern (''http'' @ ''://'' @ ''h'' @ ''/courses/'' @ ''42'') \<and>
   extract_url_parts ''http://h/courses/42'' = (Some ''http://h/'', Some 42)"
proof -
  have "re_match_course ''ftp://host/courses/123'' = None"
    by (simp add: re_match_course_def startswith_def)
  then have n: "\<not> url_prefix ''ftp://host/courses/123''"
    using url_prefix_re_match by blast
  have h: "(''http'' = ''http'' \<or> ''http'' = ''https'') \<and> ''h'' \<noteq> [] \<and> CHR ''/'' \<notin> set ''h'' \<and>
      ''42'' \<noteq> [] \<and> list_all is_digit ''42''"
    by (simp add: is_digit_def)
  from extract_url_parts_contract n
  have a: "extract_url_parts ''ftp://host/courses/123'' = (None, None)" by blast
  from extract_url_parts_contract h
  have "url_pattern (''http'' @ ''://'' @ ''h'' @ ''/courses/'' @ ''42'') \<and>
      extract_url_parts (''http'' @ ''://'' @ ''h'' @ ''/courses/'' @ ''42'') =
        (Some (''http'' @ ''://'' @ ''h'' @ ''/''), Some (int_of_digits ''42''))"
    by blast
  with n a show ?thesis
    by (simp add: int_of_digits_def digit_val_def)
qed

text \<open>
  C10. The parser matches a prefix of its input only: every text that begins with
  \<open>http://\<close> or \<open>https://\<close>, a host, \<open>/courses/\<close> and at least one digit is accepted
  whatever follows, and the course id is the leading run of digits; for example
  \<open>http://h/courses/123abc\<close> gives \<open>("http://h/", 123)\<close>, so the scheme \<open>http\<close> is
  accepted as well.
\<close>

theorem extract_url_parts_prefix:
  "(\<forall>scheme host ds rest.
      (scheme = ''http'' \<or> scheme = ''https'') \<and> host \<noteq> [] \<and> CHR ''/'' \<notin> set host \<and>
      ds \<noteq> [] \<and> list_all is_digit ds \<longrightarrow>
      extract_url_parts (scheme @ ''://'' @ host @ ''/courses/'' @ ds @ rest) =
        (Some (scheme @ ''://'' @ host @ ''/''),
         Some (int_of_digits (ds @ takeWhile is_digit rest)))) \<and>
   extract_url_parts ''http://h/courses/123abc'' = (Some ''http://h/'', Some 123)"
proof (intro conjI allI impI)
  fix scheme host ds rest :: string
  assume "(scheme = ''http'' \<or> scheme = ''https'') \<and> host \<noteq> [] \<and> CHR ''/'' \<notin> set host \<and>
      ds \<noteq> [] \<and> list_all is_digit ds"
  then have "re_match_course (scheme @ ''://'' @ host @ ''/courses/'' @ ds @ rest) =
      Some (scheme @ ''://'' @ host, ds @ takeWhile is_digit rest)"
    by (intro re_match_course_prefix) simp_all
  then show "extract_url_parts (scheme @ ''://'' @ host @ ''/courses/'' @ ds @ rest) =
        (Some (scheme @ ''://'' @ host @ ''/''),
         Some (int_of_digits (ds @ takeWhile is_digit rest)))"
    by (simp add: extract_url_parts_def)
next
  show "extract_url_parts ''http://h/courses/123abc'' = (Some ''http://h/'', Some 123)"
    by (simp add: extract_url_parts_def re_match_course_def startswith_def Let_def
        is_digit_def int_of_digits_def digit_val_def)
qed

theorem extract_url_parts_prefix_witness:
  "extract_url_parts (''http'' @ ''://'' @ ''canvas.example.com'' @ ''/courses/'' @ ''42'' @ ''/assignments/7'') =
     (Some ''http://canvas.example.com/'', Some 42)"
proof -
  have h: "(''http'' = ''http'' \<or> ''http'' = ''https'') \<and> ''canvas.example.com'' \<noteq> [] \<and>
      CHR ''/'' \<notin> set ''canvas.example.com'' \<and> ''42'' \<noteq> [] \<and> list_all is_digit ''42''"
    by (simp add: is_digit_def)
  have "extract_url_parts (''http'' @ ''://'' @ ''canvas.example.com'' @ ''/courses/'' @ ''42'' @ ''/assignments/7'') =
        (Some (''http'' @ ''://'' @ ''canvas.example.com'' @ ''/''),
         Some (int_of_digits (''42'' @ takeWhile is_digit ''/assignments/7'')))"
    using extract_url_parts_prefix h by blast
  then show ?thesis
    by (simp add: is_digit_def int_of_digits_def digit_val_def)
qed

section \<open>Properties of the image converter\<close>

lemma emit_simps [simp]:
  "fs (emit ev w) = fs w"
  "heif_registered (emit ev w) = heif_registered w"
  "manifest (emit ev w) = manifest w"
  "trace (emit ev w) = trace w @ [ev]"
  by (simp_all add: emit_def)

lemma Image_open_cong:
  assumes "fs w' = fs w" "heif_registered w' = heif_registered w"
  shows "Image_open e w' p = Image_open e w p"
  unfolding Image_open_def assms ..

lemma Image_open_emit [simp]: "Image_open e (emit ev w) p = Image_open e w p"
  by (rule Image_open_cong) simp_all

lemma Image_open_exists: "Image_open e w p = Inr img \<Longrightarrow> \<exists>b. fs w p = Some b"
  unfolding Image_open_def by (cases "fs w p") simp_all


lemma save_and_remove_ok:
  assumes "fs w p = Some b" "writable e np" "pil_encode e fmt img = Inr bytes"
  shows "save_and_remove e img np fmt p w =
           (Inr (Some np),
            w\<lparr>fs := ((fs w)(np \<mapsto> bytes))(p := None),
              trace := trace w @ [ImageSave np fmt, Remove p]\<rparr>)"
  using assms
  by (simp add: save_and_remove_def image_save_def os_remove_def Let_def emit_def)



lemma lower_jpg [simp]: "lower ''jpg'' = ''jpg''" "lower ''png'' = ''png''"
  by (simp_all add: lower_def lower_char_def)

lemma converted_path_jpg: "converted_path p ''jpg'' = fst (splitext p) @ ''.jpg''"
  by (simp add: converted_path_def split_beta)

lemma body_open_fail:
  "Image_open e w p = Inl x \<Longrightarrow>
   convert_image_body e p fmt w = (Inl x, emit (ImageOpen p) w)"
  by (simp add: convert_image_body_def Let_def)



lemma heic_world_simps [simp]:
  "fs (heic_world p w) = fs w"
  "manifest (heic_world p w) = manifest w"
  "trace (heic_world p w) = trace w @ [ImageOpen p, ImportHeif, RegisterHeif, ImageOpen p]"
  by (simp_all add: heic_world_def)


text \<open>What the handler of line 46 makes of an exception.\<close>

lemma convert_image_of_body:
  "convert_image_body e p fmt w = (Inl x, w') \<Longrightarrow>
     convert_image e p fmt w =
       (if x = FileNotFoundError \<or> x = OSError then Inr None else Inl x, w')"
  "convert_image_body e p fmt w = (Inr r, w') \<Longrightarrow> convert_image e p fmt w = (Inr r, w')"
  by (simp_all add: convert_image_def)

lemma convert_image_open_fail:
  assumes "Image_open e w p = Inl x"
  shows "convert_image e p fmt w =
     (if x = FileNotFoundError \<or> x = OSError then Inr None else Inl x, emit (ImageOpen p) w)"
  using body_open_fail [OF assms, of fmt] by (rule convert_image_of_body)







lemma convert_image_world: "snd (convert_image e p fmt w) = snd (convert_image_body e p fmt w)"
  by (cases "convert_image_body e p fmt w"; cases "fst (convert_image_body e p fmt w)")
     (auto simp: convert_image_def)

text \<open>
  C6, at a file in the HEIC encoding. The file \<open>a.heic\<close> can be read once the HEIF
  opener is registered, and the HEIF extension is installed. The converter opens the
  file first, before it looks at the extension of the path; the opener is not
  registered yet, the opening fails with an \<open>OSError\<close>, and the handler of line 46
  returns \<open>None\<close>: the extension is never imported, the file is not opened again, and
  nothing is converted.
\<close>

theorem convert_image_heic_first_open:
  "lower (snd (splitext ''a.heic'')) = ''.heic'' \<and> heif_installed heic_env \<and>
   Image_open heic_env ((example_world [(''a.heic'', ''x'')])\<lparr>heif_registered := True\<rparr>) ''a.heic'' =
     Inr \<lparr>img_mode = ''RGB'', img_data = ''x''\<rparr> \<and>
   convert_image heic_env ''a.heic'' ''jpg'' (example_world [(''a.heic'', ''x'')]) =
     (Inr None,
      \<lparr>fs = [''a.heic'' \<mapsto> ''x''], heif_registered = False, manifest = [],
       trace = [ImageOpen ''a.heic'']\<rparr>)"
proof -
  let ?w = "example_world [(''a.heic'', ''x'')]"
  have h: "lower (snd (splitext ''a.heic'')) = ''.heic''"
    by (simp add: splitext_def basename_def lower_def lower_char_def)
  have i: "heif_installed heic_env"
    by (simp add: heic_env_def)
  have r: "Image_open heic_env (?w\<lparr>heif_registered := True\<rparr>) ''a.heic'' =
      Inr \<lparr>img_mode = ''RGB'', img_data = ''x''\<rparr>"
    by (simp add: Image_open_def heic_env_def example_world_def)
  have o: "Image_open heic_env ?w ''a.heic'' = Inl OSError"
    by (simp add: Image_open_def heic_env_def example_world_def)
  from convert_image_open_fail [OF o, of "''jpg''"]
  have "convert_image heic_env ''a.heic'' ''jpg'' ?w =
     (Inr None,
      \<lparr>fs = [''a.heic'' \<mapsto> ''x''], heif_registered = False, manifest = [],
       trace = [ImageOpen ''a.heic'']\<rparr>)"
    by (simp add: emit_def example_world_def)
  with h i r show ?thesis by simp
qed

lemma split_at_last:
  assumes "c \<in> set xs"
  shows "\<exists>pre. xs = pre @ c # rev (takeWhile (\<lambda>x. x \<noteq> c) (rev xs))"
proof -
  let ?P = "\<lambda>x. x \<noteq> c"
  let ?ys = "rev xs"
  from assms have "dropWhile ?P ?ys \<noteq> []"
    by simp
  then obtain d ds where d: "dropWhile ?P ?ys = d # ds"
    by (cases "dropWhile ?P ?ys") auto
  from hd_dropWhile [of ?P ?ys] d have "d = c" by auto
  have "?ys = takeWhile ?P ?ys @ dropWhile ?P ?ys" by simp
  with d \<open>d = c\<close> have "?ys = takeWhile ?P ?ys @ c # ds" by simp
  then have "rev ?ys = rev (takeWhile ?P ?ys @ c # ds)" by simp
  then have "xs = rev ds @ c # rev (takeWhile ?P ?ys)" by simp
  then show ?thesis by blast
qed

lemma basename_suffix: "\<exists>d. p = d @ basename p"
proof -
  have "p = rev (dropWhile (\<lambda>c. c \<noteq> CHR ''/'') (rev p)) @ basename p"
    unfolding basename_def
    by (metis rev_append rev_rev_ident takeWhile_dropWhile_id)
  then show ?thesis by blast
qed

lemma splitext_append: "fst (splitext p) @ snd (splitext p) = p"
proof (cases "CHR ''.'' \<in> set (basename p)")
  case False
  then show ?thesis by (simp add: splitext_def)
next
  case True
  let ?after = "rev (takeWhile (\<lambda>c. c \<noteq> CHR ''.'') (rev (basename p)))"
  from split_at_last [OF True] obtain pre where pre: "basename p = pre @ CHR ''.'' # ?after"
    by blast
  from basename_suffix obtain d where d: "p = d @ basename p" by blast
  have p: "p = (d @ pre) @ CHR ''.'' # ?after"
    using d pre by (metis append.assoc)
  have "length p = length (d @ pre) + length ?after + 1"
    by (subst p) simp
  then have n: "length p - length ?after - 1 = length (d @ pre)" by simp
  have "take (length (d @ pre)) p = d @ pre"
    by (subst p) simp
  with n have "take (length p - length ?after - 1) p @ CHR ''.'' # ?after = p"
    using p by simp
  then show ?thesis
    by (simp add: splitext_def Let_def)
qed

lemma converted_path_same:
  assumes "snd (splitext p) = ''.'' @ lower fmt"
  shows "converted_path p fmt = p"
proof -
  have "converted_path p fmt = fst (splitext p) @ ''.'' @ lower fmt"
    by (simp add: converted_path_def split_beta)
  with assms splitext_append [of p] show ?thesis by simp
qed

lemma body_plain_png:
  assumes "Image_open e w p = Inr img" "lower (snd (splitext p)) \<noteq> ''.heic''"
    "lower fmt = ''png''"
  shows "convert_image_body e p fmt w =
     save_and_remove e img (converted_path p fmt) ''PNG'' p (emit (ImageOpen p) w)"
  using assms by (simp add: convert_image_body_def Let_def split_beta)

lemma body_plain_jpg_fmt:
  assumes "Image_open e w p = Inr img" "lower (snd (splitext p)) \<noteq> ''.heic''"
    "lower fmt = ''jpg''"
  shows "convert_image_body e p fmt w =
     save_and_remove e (img\<lparr>img_mode := ''RGB''\<rparr>) (converted_path p fmt) ''JPEG'' p
       (emit (ImageConvert ''RGB'') (emit (ImageOpen p) w))"
  using assms by (simp add: convert_image_body_def Let_def split_beta)

lemma convert_image_jpg_ok:
  assumes "Image_open e w p = Inr img" "lower (snd (splitext p)) \<noteq> ''.heic''"
    "lower fmt = ''jpg''" "writable e (converted_path p fmt)"
    "pil_encode e ''JPEG'' (img\<lparr>img_mode := ''RGB''\<rparr>) = Inr bytes"
  shows "convert_image e p fmt w =
        (Inr (Some (converted_path p fmt)),
         w\<lparr>fs := ((fs w)(converted_path p fmt \<mapsto> bytes))(p := None),
           trace := trace w @
             [ImageOpen p, ImageConvert ''RGB'',
              ImageSave (converted_path p fmt) ''JPEG'', Remove p]\<rparr>)"
proof -
  from assms(1) obtain b where b: "fs w p = Some b" using Image_open_exists by blast
  let ?w = "emit (ImageConvert ''RGB'') (emit (ImageOpen p) w)"
  have "fs ?w p = Some b" using b by simp
  from save_and_remove_ok [OF this assms(4,5)] body_plain_jpg_fmt [OF assms(1,2,3)]
  show ?thesis
    by (simp add: convert_image_def emit_def)
qed

lemma convert_image_png_ok:
  assumes "Image_open e w p = Inr img" "lower (snd (splitext p)) \<noteq> ''.heic''"
    "lower fmt = ''png''" "writable e (converted_path p fmt)"
    "pil_encode e ''PNG'' img = Inr bytes"
  shows "convert_image e p fmt w =
        (Inr (Some (converted_path p fmt)),
         w\<lparr>fs := ((fs w)(converted_path p fmt \<mapsto> bytes))(p := None),
           trace := trace w @
             [ImageOpen p, ImageSave (converted_path p fmt) ''PNG'', Remove p]\<rparr>)"
proof -
  from assms(1) obtain b where b: "fs w p = Some b" using Image_open_exists by blast
  let ?w = "emit (ImageOpen p) w"
  have "fs ?w p = Some b" using b by simp
  from save_and_remove_ok [OF this assms(4,5)] body_plain_png [OF assms(1,2,3)]
  show ?thesis
    by (simp add: convert_image_def emit_def)
qed

lemma lower_dot_ext:
  "lower (''.'' @ ''jpg'') \<noteq> ''.heic''" "lower (''.'' @ ''png'') \<noteq> ''.heic''"
  by (simp_all add: lower_def lower_char_def)

text \<open>
  C9. When the extension of the source is, character for character, a dot followed by
  the lowercased target format (\<open>jpg\<close> or \<open>png\<close>), as for \<open>x.jpg\<close> with the target
  \<open>jpg\<close>, and the image can be opened, encoded and written, the destination path is the
  source path: the converted file is written over the source, the removal of the source
  then deletes it, and the path returned names no file. A source such as \<open>x.JPG\<close>,
  whose extension equals the target only after lowercasing, is converted to the
  different path \<open>x.jpg\<close>, which exists afterwards.
\<close>

theorem convert_image_same_path:
  assumes ext: "snd (splitext p) = ''.'' @ lower fmt"
    and fmt: "lower fmt = ''jpg'' \<or> lower fmt = ''png''"
    and opened: "Image_open e w p = Inr img"
    and wr: "writable e p"
    and enc: "if lower fmt = ''jpg''
              then pil_encode e ''JPEG'' (img\<lparr>img_mode := ''RGB''\<rparr>) = Inr bytes
              else pil_encode e ''PNG'' img = Inr bytes"
  shows "converted_path p fmt = p \<and>
         fst (convert_image e p fmt w) = Inr (Some p) \<and>
         fs (snd (convert_image e p fmt w)) p = None \<and>
         (\<exists>pre F. trace (snd (convert_image e p fmt w)) =
            trace w @ pre @ [ImageSave p F, Remove p])"
proof -
  have same: "converted_path p fmt = p" using ext by (rule converted_path_same)
  from fmt show ?thesis
  proof
    assume j: "lower fmt = ''jpg''"
    with ext have nh: "lower (snd (splitext p)) \<noteq> ''.heic''"
      using lower_dot_ext by simp
    from enc j have "pil_encode e ''JPEG'' (img\<lparr>img_mode := ''RGB''\<rparr>) = Inr bytes" by simp
    from convert_image_jpg_ok [OF opened nh j _ this] wr same
    have "convert_image e p fmt w =
        (Inr (Some p),
         w\<lparr>fs := ((fs w)(p \<mapsto> bytes))(p := None),
           trace := trace w @ [ImageOpen p, ImageConvert ''RGB''] @ [ImageSave p ''JPEG'', Remove p]\<rparr>)"
      by simp
    then show ?thesis using same by auto
  next
    assume g: "lower fmt = ''png''"
    with ext have nh: "lower (snd (splitext p)) \<noteq> ''.heic''"
      using lower_dot_ext by simp
    from g have "lower fmt \<noteq> ''jpg''" by auto
    with enc have "pil_encode e ''PNG'' img = Inr bytes" by simp
    from convert_image_png_ok [OF opened nh g _ this] wr same
    have "convert_image e p fmt w =
        (Inr (Some p),
         w\<lparr>fs := ((fs w)(p \<mapsto> bytes))(p := None),
           trace := trace w @ [ImageOpen p] @ [ImageSave p ''PNG'', Remove p]\<rparr>)"
      by simp
    then show ?thesis using same by auto
  qed
qed


lemma splitext_upper: "splitext ''x.JPG'' = (''x'', ''.JPG'')"
  by (simp add: splitext_def basename_def)

lemma splitext_lower: "splitext ''x.jpg'' = (''x'', ''.jpg'')"
  by (simp add: splitext_def basename_def)

theorem convert_image_same_path_counterexample:
  "lower (snd (splitext ''x.JPG'')) = ''.'' @ ''jpg'' \<and>
   converted_path ''x.JPG'' ''jpg'' \<noteq> ''x.JPG'' \<and>
   fst (convert_image example_env ''x.JPG'' ''jpg'' (example_world [(''x.JPG'', ''d'')])) =
     Inr (Some ''x.jpg'') \<and>
   fs (snd (convert_image example_env ''x.JPG'' ''jpg'' (example_world [(''x.JPG'', ''d'')])))
     ''x.jpg'' = Some ''JPEG:RGB:d''"
proof -
  let ?w = "example_world [(''x.JPG'', ''d'')]"
  let ?img = "\<lparr>img_mode = ''P'', img_data = ''d''\<rparr>"
  have lo: "lower (snd (splitext ''x.JPG'')) = ''.jpg''"
    by (simp add: splitext_upper lower_def lower_char_def)
  have cp: "converted_path ''x.JPG'' ''jpg'' = ''x.jpg''"
    by (simp add: converted_path_def splitext_upper)
  have o: "Image_open example_env ?w ''x.JPG'' = Inr ?img"
    by (simp add: Image_open_def example_env_def example_world_def)
  have nh: "lower (snd (splitext ''x.JPG'')) \<noteq> ''.heic''"
    by (simp add: lo)
  have wr: "writable example_env (converted_path ''x.JPG'' ''jpg'')"
    by (simp add: example_env_def)
  have enc: "pil_encode example_env ''JPEG'' (?img\<lparr>img_mode := ''RGB''\<rparr>) = Inr ''JPEG:RGB:d''"
    by (simp add: example_env_def)
  from convert_image_jpg_ok [OF o nh _ wr enc] cp lo
  show ?thesis by simp
qed

theorem convert_image_same_path_witness:
  "converted_path ''x.jpg'' ''jpg'' = ''x.jpg'' \<and>
   fst (convert_image example_env ''x.jpg'' ''jpg'' (example_world [(''x.jpg'', ''d'')])) =
     Inr (Some ''x.jpg'') \<and>
   fs (snd (convert_image example_env ''x.jpg'' ''jpg'' (example_world [(''x.jpg'', ''d'')])))
     ''x.jpg'' = None"
proof -
  let ?w = "example_world [(''x.jpg'', ''d'')]"
  let ?img = "\<lparr>img_mode = ''P'', img_data = ''d''\<rparr>"
  have ext: "snd (splitext ''x.jpg'') = ''.'' @ lower ''jpg''"
    by (simp add: splitext_lower)
  have fmt: "lower ''jpg'' = ''jpg'' \<or> lower ''jpg'' = ''png''" by simp
  have o: "Image_open example_env ?w ''x.jpg'' = Inr ?img"
    by (simp add: Image_open_def example_env_def example_world_def)
  have wr: "writable example_env ''x.jpg''"
    by (simp add: example_env_def)
  have enc: "if lower ''jpg'' = ''jpg''
      then pil_encode example_env ''JPEG'' (?img\<lparr>img_mode := ''RGB''\<rparr>) = Inr ''JPEG:RGB:d''
      else pil_encode example_env ''PNG'' ?img = Inr ''JPEG:RGB:d''"
    by (simp add: example_env_def)
  from convert_image_same_path [OF ext fmt o wr enc]
  show ?thesis by blast
qed

section \<open>Properties of the input checks\<close>

lemma validate_inputs_ValueError:
  assumes "base_url = PyNone \<or> (\<exists>b. base_url = PyStr b)"
  shows "validate_inputs api_key base_url course_id assignment_id = Some ValueError \<longleftrightarrow>
     \<not> truthy api_key \<or> \<not> truthy base_url \<or> \<not> truthy course_id \<or> \<not> truthy assignment_id \<or>
     (\<exists>b. base_url = PyStr b \<and> \<not> startswith ''https://'' b) \<or>
     \<not> is_int course_id \<or> \<not> is_int assignment_id"
proof (cases "\<not> truthy api_key \<or> \<not> truthy base_url \<or> \<not> truthy course_id \<or>
    \<not> truthy assignment_id")
  case True
  then show ?thesis by (auto simp: validate_inputs_def)
next
  case False
  with assms obtain b where b: "base_url = PyStr b" by auto
  show ?thesis
    using False b
    by (cases "startswith ''https://'' b"; cases "is_int course_id"; cases "is_int assignment_id")
       (simp_all add: validate_inputs_def)
qed

lemma validate_inputs_other:
  assumes "base_url = PyNone \<or> (\<exists>b. base_url = PyStr b)"
  shows "validate_inputs api_key base_url course_id assignment_id = None \<or>
         validate_inputs api_key base_url course_id assignment_id = Some ValueError"
proof (cases "\<not> truthy api_key \<or> \<not> truthy base_url \<or> \<not> truthy course_id \<or>
    \<not> truthy assignment_id")
  case True
  then show ?thesis by (auto simp: validate_inputs_def)
next
  case False
  with assms obtain b where b: "base_url = PyStr b" by auto
  show ?thesis
    using False b
    by (cases "startswith ''https://'' b"; cases "is_int course_id"; cases "is_int assignment_id")
       (simp_all add: validate_inputs_def)
qed

lemma download_submissions_rejected:
  "validate_inputs api_key base_url course_id assignment_id = Some x \<Longrightarrow>
   download_submissions e fuel api_key base_url course_id assignment_id out conv w = (Inl x, w)"
  by (simp add: download_submissions_def)

lemma download_submissions_accepted:
  "validate_inputs api_key base_url course_id assignment_id = None \<Longrightarrow>
   fst (download_submissions e fuel api_key base_url course_id assignment_id out conv w)
     \<noteq> Inl ValueError"
  by (simp add: download_submissions_def Let_def split_beta)

text \<open>
  C8. For a base address that is a text or \<open>None\<close>, \<open>download_submissions\<close> raises a
  \<open>ValueError\<close> exactly when one of the four inputs is false as a truth value (\<open>None\<close>,
  the empty text, the integer zero, \<open>False\<close>), the base address does not begin with
  \<open>https://\<close>, or the course id or the assignment id is not an integer; and then
  nothing has happened yet: the world, with its trace of requests, is unchanged.
\<close>

theorem download_submissions_validation:
  assumes "base_url = PyNone \<or> (\<exists>b. base_url = PyStr b)"
  shows
  "(fst (download_submissions e fuel api_key base_url course_id assignment_id out conv w) =
      Inl ValueError \<longleftrightarrow>
     \<not> truthy api_key \<or> \<not> truthy base_url \<or> \<not> truthy course_id \<or> \<not> truthy assignment_id \<or>
     (\<exists>b. base_url = PyStr b \<and> \<not> startswith ''https://'' b) \<or>
     \<not> is_int course_id \<or> \<not> is_int assignment_id) \<and>
   (fst (download_submissions e fuel api_key base_url course_id assignment_id out conv w) =
      Inl ValueError \<longrightarrow>
    snd (download_submissions e fuel api_key base_url course_id assignment_id out conv w) = w)"
proof -
  let ?v = "validate_inputs api_key base_url course_id assignment_id"
  let ?r = "download_submissions e fuel api_key base_url course_id assignment_id out conv w"
  have iff: "fst ?r = Inl ValueError \<longleftrightarrow> ?v = Some ValueError"
  proof
    assume l: "fst ?r = Inl ValueError"
    from validate_inputs_other [OF assms, of api_key course_id assignment_id]
    show "?v = Some ValueError"
    proof
      assume "?v = None"
      from download_submissions_accepted [OF this, of e fuel out conv w] l show ?thesis by simp
    qed
  next
    assume "?v = Some ValueError"
    from download_submissions_rejected [OF this, of e fuel out conv w]
    show "fst ?r = Inl ValueError" by simp
  qed
  have same: "snd ?r = w" if "fst ?r = Inl ValueError"
  proof -
    from that iff have "?v = Some ValueError" by simp
    from download_submissions_rejected [OF this, of e fuel out conv w] show ?thesis by simp
  qed
  from iff validate_inputs_ValueError [OF assms, of api_key course_id assignment_id] same
  show ?thesis by blast
qed

theorem download_submissions_validation_witness:
  "download_submissions example_env 5 PyNone (PyStr ''https://h/'') (PyInt 1) (PyInt 2)
      ''out'' None (example_world []) = (Inl ValueError, example_world [])"
proof -
  have h: "PyStr ''https://h/'' = PyNone \<or> (\<exists>b. PyStr ''https://h/'' = PyStr b)" by simp
  from download_submissions_validation [OF h, of example_env 5 PyNone "PyInt 1" "PyInt 2" "''out''"
      None "example_world []"]
  show ?thesis by (simp add: prod_eq_iff)
qed

theorem download_submissions_validation_counterexample:
  "fst (download_submissions example_env 5 (PyStr ''key'') (PyStr ''https://h/'') (PyInt 1) (PyInt 0)
      ''out'' None (example_world [])) = Inl ValueError \<and>
   PyStr ''key'' \<noteq> PyNone \<and> ''key'' \<noteq> [] \<and> startswith ''https://'' ''https://h/'' \<and>
   PyInt 1 \<noteq> PyNone \<and> is_int (PyInt 1) \<and> PyInt 0 \<noteq> PyNone \<and> is_int (PyInt 0)"
  by (simp add: download_submissions_def validate_inputs_def startswith_def)



section \<open>Properties of the download\<close>

lemma grows_refl [simp]: "grows P w w"
  by (simp add: grows_def)

lemma grows_trans: "grows P w w1 \<Longrightarrow> grows P w1 w2 \<Longrightarrow> grows P w w2"
  by (auto simp: grows_def)

lemma grows_emit: "P ev \<Longrightarrow> grows P w (emit ev w)"
  by (simp add: grows_def)

lemma grows_same: "trace w' = trace w \<Longrightarrow> grows P w w'"
  by (simp add: grows_def)

lemma image_save_trace:
  "trace (snd (image_save e img path fmt w)) = trace w @ [ImageSave path fmt]"
  by (cases "pil_encode e fmt img"; cases "fs w path")
     (simp_all add: image_save_def Let_def)

lemma grows_image_save:
  "P (ImageSave path fmt) \<Longrightarrow> grows P w (snd (image_save e img path fmt w))"
  by (simp add: grows_def image_save_trace)

lemma grows_os_remove: "P (Remove path) \<Longrightarrow> grows P w (snd (os_remove path w))"
  by (auto simp: os_remove_def Let_def grows_def split: option.splits)

lemma grows_save_and_remove:
  assumes "P (ImageSave np fmt)" "P (Remove p)"
  shows "grows P w (snd (save_and_remove e img np fmt p w))"
proof (cases "image_save e img np fmt w")
  case (Pair r w1)
  with grows_image_save [of P np fmt w e img] assms(1) have g1: "grows P w w1" by simp
  show ?thesis
  proof (cases r)
    case (Inl x)
    with Pair g1 show ?thesis by (simp add: save_and_remove_def)
  next
    case (Inr u)
    obtain r2 w2 where r2: "os_remove p w1 = (r2, w2)" by (cases "os_remove p w1")
    with grows_os_remove [of P p w1] assms(2) have "grows P w1 w2" by simp
    with g1 have "grows P w w2" by (rule grows_trans)
    with Pair Inr r2 show ?thesis
      by (cases r2) (simp_all add: save_and_remove_def)
  qed
qed

lemma grows_heic_reopen:
  assumes "P ImportHeif" "P RegisterHeif" "P (ImageOpen p)"
  shows "grows P w (snd (heic_reopen e p w))"
  using assms
  by (auto simp: heic_reopen_def Let_def grows_def split: sum.splits)

lemma convert_image_body_unfold:
  "convert_image_body e p fmt w =
     (case Image_open e w p of
        Inl x \<Rightarrow> (Inl x, emit (ImageOpen p) w)
      | Inr img0 \<Rightarrow>
          (case (if lower (snd (splitext p)) = ''.heic'' then heic_reopen e p (emit (ImageOpen p) w)
                 else (Inr (Some img0), emit (ImageOpen p) w)) of
             (Inl x, w2) \<Rightarrow> (Inl x, w2)
           | (Inr None, w2) \<Rightarrow> (Inr None, w2)
           | (Inr (Some img), w2) \<Rightarrow>
               if lower fmt = ''jpg'' then
                 save_and_remove e (img\<lparr>img_mode := ''RGB''\<rparr>) (converted_path p fmt) ''JPEG'' p
                   (emit (ImageConvert ''RGB'') w2)
               else if lower fmt = ''png'' then
                 save_and_remove e img (converted_path p fmt) ''PNG'' p w2
               else (Inr None, w2)))"
  by (simp add: convert_image_body_def Let_def split_beta split: sum.splits option.splits)

lemma grows_convert_image_body:
  assumes "\<And>q. P (ImageOpen q)" "P ImportHeif" "P RegisterHeif" "\<And>m. P (ImageConvert m)"
    "\<And>q f. P (ImageSave q f)" "\<And>q. P (Remove q)"
  shows "grows P w (snd (convert_image_body e p fmt w))"
proof -
  from assms have ev: "P (ImageOpen p)" "P ImportHeif" "P RegisterHeif"
    "P (ImageConvert ''RGB'')" "\<And>f. P (ImageSave (converted_path p fmt) f)" "P (Remove p)"
    by auto
  let ?w1 = "emit (ImageOpen p) w"
  have g1: "grows P w ?w1" using ev(1) by (rule grows_emit)
  show ?thesis
  proof (cases "Image_open e w p")
    case (Inl x)
    then show ?thesis using g1 by (simp add: convert_image_body_unfold)
  next
    case (Inr img0)
    obtain r w2 where rw: "(if lower (snd (splitext p)) = ''.heic'' then heic_reopen e p ?w1
                 else (Inr (Some img0), ?w1)) = (r, w2)"
      by (cases "if lower (snd (splitext p)) = ''.heic'' then heic_reopen e p ?w1
                 else (Inr (Some img0), ?w1)")
    have "grows P ?w1 w2"
    proof (cases "lower (snd (splitext p)) = ''.heic''")
      case True
      with rw grows_heic_reopen [of P p ?w1 e] ev show ?thesis by simp
    next
      case False
      with rw show ?thesis by auto
    qed
    with g1 have g2: "grows P w w2" by (rule grows_trans)
    show ?thesis
    proof (cases r)
      case (Inl x)
      with Inr rw g2 show ?thesis by (simp add: convert_image_body_unfold)
    next
      case r: (Inr o')
      show ?thesis
      proof (cases o')
        case None
        with Inr rw r g2 show ?thesis by (simp add: convert_image_body_unfold)
      next
        case (Some img)
        have g3: "grows P w (emit (ImageConvert ''RGB'') w2)"
          using g2 grows_emit [of P "ImageConvert ''RGB''" w2] ev(4) by (blast intro: grows_trans)
        have j: "grows P w (snd (save_and_remove e (img\<lparr>img_mode := ''RGB''\<rparr>)
            (converted_path p fmt) ''JPEG'' p (emit (ImageConvert ''RGB'') w2)))"
          using g3 grows_save_and_remove [of P "converted_path p fmt" "''JPEG''" p
              "emit (ImageConvert ''RGB'') w2" e "img\<lparr>img_mode := ''RGB''\<rparr>"] ev
          by (blast intro: grows_trans)
        have g: "grows P w (snd (save_and_remove e img (converted_path p fmt) ''PNG'' p w2))"
          using g2 grows_save_and_remove [of P "converted_path p fmt" "''PNG''" p w2 e img] ev
          by (blast intro: grows_trans)
        from Inr rw r Some j g g2 show ?thesis
          by (simp add: convert_image_body_unfold)
      qed
    qed
  qed
qed

lemma grows_convert_image:
  assumes "\<And>q. P (ImageOpen q)" "P ImportHeif" "P RegisterHeif" "\<And>m. P (ImageConvert m)"
    "\<And>q f. P (ImageSave q f)" "\<And>q. P (Remove q)"
  shows "grows P w (snd (convert_image e p fmt w))"
  using grows_convert_image_body [of P w e p fmt] assms by (simp add: convert_image_world)

lemma grows_downloads:
  assumes "grows (\<lambda>ev. \<not> is_download ev) w w'"
  shows "downloads w' = downloads w"
proof -
  from assms obtain post where p: "trace w' = trace w @ post"
    and a: "list_all (\<lambda>ev. \<not> is_download ev) post"
    by (auto simp: grows_def)
  from a have "filter is_download post = []"
    by (simp add: list_all_iff filter_empty_conv)
  with p show ?thesis by (simp add: downloads_def)
qed

lemma downloads_convert_image [simp]:
  "downloads (snd (convert_image e p fmt w)) = downloads w"
  by (rule grows_downloads, rule grows_convert_image) simp_all

lemma downloads_emit [simp]:
  "downloads (emit ev w) = (if is_download ev then Suc (downloads w) else downloads w)"
  by (simp add: downloads_def)

lemma downloads_fs_update [simp]: "downloads (w\<lparr>fs := f\<rparr>) = downloads w"
  by (simp add: downloads_def)

lemma downloads_manifest_update [simp]: "downloads (w\<lparr>manifest := m\<rparr>) = downloads w"
  by (simp add: downloads_def)

text \<open>With a reliable imaging library every exception of the conversion is one that the
  handler of line 46 catches.\<close>

lemma Image_open_exn:
  assumes "reliable e" "Image_open e w p = Inl x"
  shows "x = FileNotFoundError \<or> x = OSError"
proof (cases "fs w p")
  case None
  with assms(2) show ?thesis by (simp add: Image_open_def)
next
  case (Some b)
  with assms(2) have "pil_decode e (heif_registered w) b = Inl x"
    by (simp add: Image_open_def)
  with assms(1) show ?thesis unfolding reliable_def by blast
qed

lemma image_save_exn:
  assumes "reliable e" "fst (image_save e img np fmt w) = Inl x"
  shows "x = FileNotFoundError \<or> x = OSError"
proof (cases "writable e np")
  case False
  with assms(2) show ?thesis by (simp add: image_save_def Let_def)
next
  case True
  show ?thesis
  proof (cases "pil_encode e fmt img")
    case (Inl y)
    with True assms(2) have "y = x" by (simp add: image_save_def Let_def)
    with Inl assms(1) show ?thesis unfolding reliable_def by blast
  next
    case (Inr bytes)
    with True assms(2) show ?thesis by (simp add: image_save_def Let_def)
  qed
qed

lemma os_remove_exn:
  "fst (os_remove p w) = Inl x \<Longrightarrow> x = FileNotFoundError"
  by (cases "fs w p") (simp_all add: os_remove_def Let_def)

lemma save_and_remove_exn:
  assumes "reliable e" "fst (save_and_remove e img np fmt p w) = Inl x"
  shows "x = FileNotFoundError \<or> x = OSError"
proof (cases "image_save e img np fmt w")
  case (Pair r w1)
  show ?thesis
  proof (cases r)
    case (Inl y)
    with Pair assms(2) have "fst (image_save e img np fmt w) = Inl x"
      by (simp add: save_and_remove_def)
    with assms(1) show ?thesis by (rule image_save_exn)
  next
    case (Inr u)
    with Pair assms(2) have "fst (os_remove p w1) = Inl x"
      by (cases "os_remove p w1"; cases "fst (os_remove p w1)")
         (auto simp: save_and_remove_def)
    then show ?thesis by (simp add: os_remove_exn)
  qed
qed

lemma heic_reopen_exn:
  assumes "reliable e" "fst (heic_reopen e p w) = Inl x"
  shows "x = FileNotFoundError \<or> x = OSError"
  using assms(2) Image_open_exn [OF assms(1)]
  by (auto simp: heic_reopen_def Let_def split: sum.splits if_splits)

lemma convert_image_body_exn:
  assumes rel: "reliable e" and "fst (convert_image_body e p fmt w) = Inl x"
  shows "x = FileNotFoundError \<or> x = OSError"
proof (cases "Image_open e w p")
  case (Inl y)
  with assms Image_open_exn [OF rel Inl] show ?thesis
    by (simp add: convert_image_body_unfold)
next
  case (Inr img0)
  let ?w1 = "emit (ImageOpen p) w"
  obtain r w2 where rw: "(if lower (snd (splitext p)) = ''.heic'' then heic_reopen e p ?w1
                 else (Inr (Some img0), ?w1)) = (r, w2)"
    by (cases "if lower (snd (splitext p)) = ''.heic'' then heic_reopen e p ?w1
                 else (Inr (Some img0), ?w1)")
  show ?thesis
  proof (cases r)
    case (Inl y)
    with rw have "fst (heic_reopen e p ?w1) = Inl y"
      by (auto split: if_splits)
    from heic_reopen_exn [OF rel this] assms Inr rw Inl show ?thesis
      by (simp add: convert_image_body_unfold)
  next
    case r: (Inr o')
    show ?thesis
    proof (cases o')
      case None
      with assms Inr rw r show ?thesis by (simp add: convert_image_body_unfold)
    next
      case (Some img)
      with assms Inr rw r show ?thesis
        by (auto simp: convert_image_body_unfold split: if_splits
            dest: save_and_remove_exn [OF rel])
    qed
  qed
qed

lemma convert_image_returns:
  assumes "reliable e"
  shows "\<exists>r. fst (convert_image e p fmt w) = Inr r"
proof (cases "convert_image_body e p fmt w")
  case (Pair r w')
  show ?thesis
  proof (cases r)
    case (Inl x)
    with Pair convert_image_body_exn [OF assms, of p fmt w x] show ?thesis
      by (auto simp: convert_image_def)
  next
    case (Inr y)
    with Pair show ?thesis by (simp add: convert_image_def)
  qed
qed

lemma manifest_image_save [simp]:
  "manifest (snd (image_save e img np fmt w)) = manifest w"
  by (cases "pil_encode e fmt img"; cases "fs w np")
     (simp_all add: image_save_def Let_def)

lemma manifest_os_remove [simp]: "manifest (snd (os_remove p w)) = manifest w"
  by (cases "fs w p") (simp_all add: os_remove_def Let_def)

lemma manifest_save_and_remove [simp]:
  "manifest (snd (save_and_remove e img np fmt p w)) = manifest w"
proof (cases "image_save e img np fmt w")
  case (Pair r w1)
  with manifest_image_save [of e img np fmt w] have m1: "manifest w1 = manifest w" by simp
  show ?thesis
  proof (cases r)
    case (Inl x)
    with Pair m1 show ?thesis by (simp add: save_and_remove_def)
  next
    case (Inr u)
    obtain r2 w2 where r2: "os_remove p w1 = (r2, w2)" by (cases "os_remove p w1")
    with manifest_os_remove [of p w1] m1 have "manifest w2 = manifest w" by simp
    with Pair Inr r2 show ?thesis
      by (cases r2) (simp_all add: save_and_remove_def)
  qed
qed

lemma manifest_heic_reopen [simp]: "manifest (snd (heic_reopen e p w)) = manifest w"
  by (auto simp: heic_reopen_def Let_def split: sum.splits)

lemma manifest_convert_image [simp]:
  "manifest (snd (convert_image e p fmt w)) = manifest w"
proof -
  have "manifest (snd (convert_image_body e p fmt w)) = manifest w"
    unfolding convert_image_body_unfold
    by (cases "lower (snd (splitext p)) = ''.heic''";
        cases "heic_reopen e p (emit (ImageOpen p) w)")
       (auto split: sum.splits option.splits dest: arg_cong [where f = "\<lambda>x. manifest (snd x)"])
  then show ?thesis by (simp add: convert_image_world)
qed

lemma writerow_cases:
  "(\<exists>x. csv_error e row = Some x \<and> writerow e row w = (Inl x, w)) \<or>
   (csv_error e row = None \<and> writerow e row w = (Inr (), w\<lparr>manifest := manifest w @ [row]\<rparr>))"
  by (cases "csv_error e row") (simp_all add: writerow_def)

text \<open>Lines 174 to 188 either raise, and then the manifest is as before, or write one
  row; the world \<open>w'\<close> is the one after the conversion, if there was one.\<close>

lemma convert_and_record_cases:
  "\<exists>w'. manifest w' = manifest w \<and> downloads w' = downloads w \<and>
      (w' = w \<or> (\<exists>fmt. w' = snd (convert_image e fp fmt w))) \<and>
      (((\<exists>x. convert_and_record e c si orig renamed fp w = (Inl x, w')) \<and> \<not> reliable e) \<or>
       (\<exists>name. convert_and_record e c si orig renamed fp w =
          (Inr (), w'\<lparr>manifest := manifest w' @ [manifest_row si orig name]\<rparr>)))"
proof -
  have fin: "((\<exists>x. writerow e (manifest_row si orig name) w' = (Inl x, w')) \<and> \<not> reliable e) \<or>
      writerow e (manifest_row si orig name) w' =
        (Inr (), w'\<lparr>manifest := manifest w' @ [manifest_row si orig name]\<rparr>)" for name w'
    using writerow_cases [of e "manifest_row si orig name" w']
    by (auto simp: reliable_def)
  show ?thesis
  proof (cases "c_convert_to c = None \<or> c_convert_to c = Some []")
    case True
    then have "convert_and_record e c si orig renamed fp w =
        writerow e (manifest_row si orig renamed) w"
      by (auto simp: convert_and_record_def)
    with fin [of renamed w] show ?thesis by metis
  next
    case False
    then obtain fmt where fmt: "c_convert_to c = Some fmt" "fmt \<noteq> []" by auto
    obtain r w' where rw: "convert_image e fp fmt w = (r, w')"
      by (cases "convert_image e fp fmt w")
    have m: "manifest w' = manifest w" "downloads w' = downloads w"
      using rw manifest_convert_image [of e fp fmt w] downloads_convert_image [of e fp fmt w]
      by simp_all
    have w': "w' = w \<or> (\<exists>fmt. w' = snd (convert_image e fp fmt w))"
      using rw by (metis snd_conv)
    have written: ?thesis
      if "convert_and_record e c si orig renamed fp w = writerow e (manifest_row si orig name) w'"
      for name
      using that fin [of name w'] m w' by metis
    have raised: ?thesis
      if "convert_and_record e c si orig renamed fp w = (Inl x, w')" "\<not> reliable e" for x
      using that m w' by metis
    show ?thesis
    proof (cases r)
      case (Inl x)
      with fmt rw have "convert_and_record e c si orig renamed fp w = (Inl x, w')"
        by (simp add: convert_and_record_def)
      moreover have "\<not> reliable e"
        using convert_image_returns [of e fp fmt w] rw Inl by auto
      ultimately show ?thesis by (rule raised)
    next
      case (Inr y)
      show ?thesis
      proof (cases y)
        case (Some q)
        with fmt rw Inr
        have "convert_and_record e c si orig renamed fp w =
            writerow e (manifest_row si orig (basename q)) w'"
          by (simp add: convert_and_record_def)
        then show ?thesis by (rule written)
      next
        case None
        show ?thesis
        proof (cases "print_error e (''Conversion failed for '' @ orig @ ''. Keeping original.'')")
          case pn: None
          with fmt rw Inr None
          have "convert_and_record e c si orig renamed fp w =
              writerow e (manifest_row si orig renamed) w'"
            by (simp add: convert_and_record_def)
          then show ?thesis by (rule written)
        next
          case (Some x)
          with fmt rw Inr None
          have "convert_and_record e c si orig renamed fp w = (Inl x, w')"
            by (simp add: convert_and_record_def)
          moreover from Some have "\<not> reliable e" by (auto simp: reliable_def)
          ultimately show ?thesis by (rule raised)
        qed
      qed
    qed
  qed
qed


lemma process_attachment_skip:
  assumes "att_filename a = None \<or> att_filename a = Some [] \<or>
           att_url a = None \<or> att_url a = Some []"
  shows "process_attachment e c si a w = w"
  using assms
  by (cases "att_filename a"; cases "att_url a") (auto simp: process_attachment_def)

lemma process_attachment_unfold:
  assumes "att_filename a = Some fn" "att_url a = Some url" "fn \<noteq> []" "url \<noteq> []"
  shows "process_attachment e c si a w =
    (let renamed = py_str (si_canvas_id si) @ ''_'' @ fn;
         fp = path_join (c_output_path c) renamed;
         w1 = emit (HttpGet (download_request c url)) w
     in case http e (trace w) (download_request c url) of
          None \<Rightarrow> w1
        | Some r \<Rightarrow>
            if status_error r \<or> \<not> writable e fp then w1
            else if \<not> resp_stream_ok r then w1\<lparr>fs := (fs w1)(fp \<mapsto> resp_content r)\<rparr>
            else snd (convert_and_record e c si fn renamed fp
                        (downloaded_world c url fp (resp_content r) w)))"
  using assms
  by (simp add: process_attachment_def http_get_def downloaded_world_def Let_def
      split: option.splits)

lemma downloaded_world_simps [simp]:
  "downloads (downloaded_world c url fp bytes w) = Suc (downloads w)"
  "manifest (downloaded_world c url fp bytes w) = manifest w"
  by (simp_all add: downloaded_world_def)


lemma covered_refl [simp]: "covered w w"
  by (simp add: covered_def)


lemma balanced_refl [simp]: "balanced w w"
  by (simp add: balanced_def)


lemma tally_refl [simp]: "tally e w w"
  by (simp add: tally_def)




lemma process_attachments_Nil [simp]: "process_attachments e c si [] w = w"
  by (simp add: process_attachments_def)


lemma process_attachments_append:
  "process_attachments e c si (pre @ post) w =
     process_attachments e c si post (process_attachments e c si pre w)"
  by (simp add: process_attachments_def)


lemma process_submission_world:
  "snd (process_submission e c s w) = w \<or>
   (\<exists>si. snd (process_submission e c s w) = process_attachments e c si (sub_attachments s) w)"
proof (cases "sub_submitted_at s")
  case None
  then show ?thesis
    by (intro disjI2) (simp add: process_submission_def Let_def, blast)
next
  case (Some t)
  show ?thesis
  proof (cases "t = []")
    case True
    with Some show ?thesis
      by (intro disjI2) (simp add: process_submission_def Let_def, blast)
  next
    case False
    show ?thesis
    proof (cases "strptime e t")
      case None
      with Some False show ?thesis
        by (simp add: process_submission_def Let_def)
    next
      case d: (Some d)
      with Some False show ?thesis
        by (intro disjI2) (simp add: process_submission_def Let_def, blast)
    qed
  qed
qed



lemma fetch_step_world:
  "snd (fetch_step e c u w) = emit (HttpGet (page_request c u)) w \<or>
   (\<exists>n. snd (fetch_step e c u w) = emit (Sleep n) (emit (HttpGet (page_request c u)) w)) \<or>
   (\<exists>ss. snd (fetch_step e c u w) =
      snd (process_submissions e c ss (emit (HttpGet (page_request c u)) w)))"
proof -
  let ?w1 = "emit (HttpGet (page_request c u)) w"
  show ?thesis
  proof (cases "http e (trace w) (page_request c u)")
    case None
    then show ?thesis by (simp add: fetch_step_def http_get_def)
  next
    case (Some r)
    show ?thesis
    proof (cases "resp_retry_after r")
      case v: (Some v)
      with Some show ?thesis
        by (cases "py_int v") (auto simp: fetch_step_def http_get_def)
    next
      case None
      show ?thesis
      proof (cases "resp_json r")
        case n: None
        with Some None show ?thesis by (simp add: fetch_step_def http_get_def)
      next
        case (Some ss)
        obtain r2 w2 where p: "process_submissions e c ss ?w1 = (r2, w2)"
          by (cases "process_submissions e c ss ?w1")
        have "snd (fetch_step e c u w) = (if status_error r then ?w1 else w2)"
          using p \<open>http e (trace w) (page_request c u) = Some r\<close> None Some
          by (cases r2) (simp_all add: fetch_step_def http_get_def)
        moreover have "w2 = snd (process_submissions e c ss ?w1)" using p by simp
        ultimately have "snd (fetch_step e c u w) = ?w1 \<or>
            snd (fetch_step e c u w) = snd (process_submissions e c ss ?w1)"
          by (cases "status_error r") simp_all
        then show ?thesis by blast
      qed
    qed
  qed
qed






lemma str_of_nat_small: "n < 10 \<Longrightarrow> str_of_nat n = [''0123456789'' ! n]"
  by (simp add: str_of_nat.simps)

lemmas run_simps =
  server_env_def example_env_def example_world_def example_ctx_def first_page_def
  fetch_step_def http_get_def Let_def emit_def page_def page_request_def status_error_def
  next_url_def is_next_link_def link_target_def strip_chars_def startswith_def
  http_requests_def List.map_filter_def

lemmas download_simps =
  download_submissions_def validate_inputs_def str_of_int_def str_of_nat_small path_join_def



lemma server_env_simps:
  "http (server_env T) tr rq = map_of T (req_url rq)"
  "writable (server_env T) p"
  "csv_error (server_env T) row = None"
  "print_error (server_env T) m = None"
  by (simp_all add: server_env_def example_env_def)













section \<open>Properties of the page loop\<close>

lemma emits_pil:
  assumes "emits P c"
  shows "\<And>q. P (ImageOpen q)" "P ImportHeif" "P RegisterHeif" "\<And>m. P (ImageConvert m)"
    "\<And>q f. P (ImageSave q f)" "\<And>q. P (Remove q)"
  using assms by (auto simp: emits_def)

lemma grows_convert_and_record:
  assumes "emits P c'"
  shows "grows P w (snd (convert_and_record e c si orig renamed fp w))"
proof -
  from convert_and_record_cases [of w e fp c si orig renamed]
  obtain w' where w': "w' = w \<or> (\<exists>fmt. w' = snd (convert_image e fp fmt w))"
    and eq: "(\<exists>x. convert_and_record e c si orig renamed fp w = (Inl x, w')) \<or>
       (\<exists>name. convert_and_record e c si orig renamed fp w =
          (Inr (), w'\<lparr>manifest := manifest w' @ [manifest_row si orig name]\<rparr>))"
    by blast
  from w' have "grows P w w'"
  proof
    assume "w' = w" then show ?thesis by simp
  next
    assume "\<exists>fmt. w' = snd (convert_image e fp fmt w)"
    then obtain fmt where "w' = snd (convert_image e fp fmt w)" ..
    with grows_convert_image [of P w e fp fmt] emits_pil [OF assms] show ?thesis by simp
  qed
  with eq show ?thesis by (auto simp: grows_def)
qed

lemma grows_process_attachment:
  assumes "emits P c"
  shows "grows P w (process_attachment e c si a w)"
proof (cases "att_filename a = None \<or> att_filename a = Some [] \<or>
           att_url a = None \<or> att_url a = Some []")
  case True
  then show ?thesis by (simp add: process_attachment_skip)
next
  case False
  then obtain fn url where m: "att_filename a = Some fn" "att_url a = Some url"
    "fn \<noteq> []" "url \<noteq> []" by auto
  let ?fp = "path_join (c_output_path c) (py_str (si_canvas_id si) @ ''_'' @ fn)"
  let ?w1 = "emit (HttpGet (download_request c url)) w"
  from assms have p: "P (HttpGet (download_request c url))" "P (Downloaded ?fp)"
    by (auto simp: emits_def)
  have g1: "grows P w ?w1" using p(1) by (rule grows_emit)
  have g2: "grows P w (?w1\<lparr>fs := f\<rparr>)" for f
    using g1 by (simp add: grows_def)
  have g3: "grows P w (downloaded_world c url ?fp bytes w)" for bytes
    unfolding downloaded_world_def
    using g2 [of "(fs ?w1)(?fp \<mapsto> bytes)"]
      grows_emit [of P "Downloaded ?fp" "?w1\<lparr>fs := (fs ?w1)(?fp \<mapsto> bytes)\<rparr>"] p(2)
    by (blast intro: grows_trans)
  have g4: "grows P w (snd (convert_and_record e c si fn rn ?fp
      (downloaded_world c url ?fp bytes w)))" for bytes rn
    using g3 [of bytes] grows_convert_and_record [OF assms] by (blast intro: grows_trans)
  show ?thesis
    unfolding process_attachment_unfold [OF m]
    using g1 g2 g4 by (simp add: Let_def split: option.splits)
qed

lemma grows_process_attachments:
  assumes "emits P c"
  shows "grows P w (process_attachments e c si atts w)"
proof (induction atts arbitrary: w)
  case Nil
  then show ?case by (simp add: process_attachments_def)
next
  case (Cons a atts)
  have "grows P w (process_attachment e c si a w)"
    using assms by (rule grows_process_attachment)
  moreover have "grows P (process_attachment e c si a w)
      (process_attachments e c si atts (process_attachment e c si a w))"
    by (rule Cons.IH)
  ultimately show ?case
    by (simp add: process_attachments_def grows_trans)
qed

lemma grows_process_submission:
  assumes "emits P c"
  shows "grows P w (snd (process_submission e c s w))"
  using process_submission_world [of e c s w] grows_process_attachments [OF assms, of w e]
  by auto

lemma grows_process_submissions:
  assumes "emits P c"
  shows "grows P w (snd (process_submissions e c ss w))"
proof (induction ss arbitrary: w)
  case Nil
  then show ?case by simp
next
  case (Cons s ss)
  obtain r w1 where rw: "process_submission e c s w = (r, w1)"
    by (cases "process_submission e c s w")
  with grows_process_submission [OF assms, of w e s] have b1: "grows P w w1" by simp
  show ?case
  proof (cases r)
    case (Inl x)
    with rw b1 show ?thesis by simp
  next
    case (Inr u)
    with rw b1 Cons.IH [of w1] show ?thesis
      by (simp add: grows_trans)
  qed
qed

lemma grows_fetch_step_after_get:
  assumes "emits P c"
  shows "grows P (emit (HttpGet (page_request c u)) w) (snd (fetch_step e c u w))"
proof -
  let ?w1 = "emit (HttpGet (page_request c u)) w"
  from assms have s: "P (Sleep n)" for n by (simp add: emits_def)
  from fetch_step_world [of e c u w] show ?thesis
  proof (elim disjE exE)
    assume "snd (fetch_step e c u w) = ?w1"
    then show ?thesis by simp
  next
    fix n assume "snd (fetch_step e c u w) = emit (Sleep n) ?w1"
    with grows_emit [of P "Sleep n" ?w1] s show ?thesis by simp
  next
    fix ss assume "snd (fetch_step e c u w) = snd (process_submissions e c ss ?w1)"
    with grows_process_submissions [OF assms, of ?w1 e ss] show ?thesis by simp
  qed
qed

lemma grows_fetch_step:
  assumes "emits P c"
  shows "grows P w (snd (fetch_step e c u w))"
proof -
  from assms have "P (HttpGet (page_request c u))" by (simp add: emits_def)
  then have "grows P w (emit (HttpGet (page_request c u)) w)" by (rule grows_emit)
  with grows_fetch_step_after_get [OF assms, of u w e] show ?thesis
    by (blast intro: grows_trans)
qed

lemma grows_fetch_loop:
  assumes "emits P c"
  shows "grows P w (snd (fetch_loop e c fuel url w))"
proof (induction fuel arbitrary: url w)
  case 0
  then show ?case by (cases url) simp_all
next
  case (Suc n)
  show ?case
  proof (cases url)
    case None
    then show ?thesis by simp
  next
    case (Some u)
    show ?thesis
    proof (cases "u = []")
      case True
      with Some show ?thesis by simp
    next
      case False
      obtain st w1 where st: "fetch_step e c u w = (st, w1)" by (cases "fetch_step e c u w")
      with grows_fetch_step [OF assms, of w e u] have b1: "grows P w w1" by simp
      show ?thesis
      proof (cases st)
        case Break
        with Some False st b1 show ?thesis by simp
      next
        case (Continue url')
        with Some False st b1 Suc.IH [of w1 url'] show ?thesis
          by (simp add: grows_trans)
      qed
    qed
  qed
qed

lemma emits_True: "emits (\<lambda>ev. True) c"
  by (simp add: emits_def)

lemma fetch_step_first_event:
  "\<exists>post. trace (snd (fetch_step e c u w)) = trace w @ HttpGet (page_request c u) # post"
  using grows_fetch_step_after_get [OF emits_True, of c u w e]
  by (auto simp: grows_def)





lemma next_url_None [simp]: "next_url None = None"
  by (simp add: next_url_def)












lemma sample_download:
  "download_submissions (server_env T) fuel (PyStr ''key'') (PyStr ''https://h/'') (PyInt 1)
      (PyInt 2) ''out'' None w =
   (Inr (fst (fetch_loop (server_env T) example_ctx fuel (Some first_page)
               ((emit (MakeDirs ''out'') w)\<lparr>manifest := [csv_header]\<rparr>))),
    snd (fetch_loop (server_env T) example_ctx fuel (Some first_page)
               ((emit (MakeDirs ''out'') w)\<lparr>manifest := [csv_header]\<rparr>)))"
  by (simp add: download_simps server_env_simps example_ctx_def first_page_def startswith_def
      split_beta Let_def)


lemma emits_carries: "emits (carries c) c"
  by (simp add: emits_def carries_def page_request_def download_request_def)

lemma http_requests_emit [simp]:
  "http_requests (emit ev w) = http_requests w @ (case get_of ev of None \<Rightarrow> [] | Some rq \<Rightarrow> [rq])"
  by (simp add: http_requests_def List.map_filter_def split: option.splits)

lemma http_requests_manifest_update [simp]:
  "http_requests (w\<lparr>manifest := m\<rparr>) = http_requests w"
  by (simp add: http_requests_def)

lemma grows_requests:
  assumes "grows (carries c) w w'"
  shows "\<forall>rq \<in> set (drop (length (http_requests w)) (http_requests w')).
           if req_stream rq then req_params rq = None else req_params rq = Some (c_params c)"
proof -
  from assms obtain post where p: "trace w' = trace w @ post"
    and a: "list_all (carries c) post"
    by (auto simp: grows_def)
  from p have "http_requests w' = http_requests w @ List.map_filter get_of post"
    by (simp add: http_requests_def List.map_filter_def)
  then have d: "drop (length (http_requests w)) (http_requests w') = List.map_filter get_of post"
    by simp
  show ?thesis
  proof
    fix rq assume "rq \<in> set (drop (length (http_requests w)) (http_requests w'))"
    with d obtain ev where ev: "ev \<in> set post" "get_of ev = Some rq"
      by (auto simp: List.map_filter_def)
    with a have "carries c ev" by (simp add: list_all_iff)
    with ev(2) show "if req_stream rq then req_params rq = None
        else req_params rq = Some (c_params c)"
      by (simp add: carries_def)
  qed
qed

lemma download_submissions_requests:
  "\<forall>rq \<in> set (drop (length (http_requests w))
      (http_requests (snd (download_submissions e fuel api_key base_url course_id assignment_id
         out conv w)))).
     if req_stream rq then req_params rq = None else req_params rq = Some assignment_params"
proof (cases "validate_inputs api_key base_url course_id assignment_id")
  case (Some x)
  then show ?thesis by (simp add: download_submissions_def)
next
  case None
  let ?c = "\<lparr>c_auth = ''Bearer '' @ py_str api_key, c_params = assignment_params,
                    c_output_path = out, c_convert_to = conv\<rparr>"
  let ?u = "py_str base_url @ ''api/v1/courses/'' @ py_str course_id @
                  ''/assignments/'' @ py_str assignment_id @ ''/submissions''"
  let ?w1 = "(emit (MakeDirs out) w)\<lparr>manifest := [csv_header]\<rparr>"
  let ?w' = "snd (download_submissions e fuel api_key base_url course_id assignment_id out conv w)"
  have hr: "http_requests ?w1 = http_requests w" by simp
  have "?w' = emit (MakeDirs out) w \<or> ?w' = snd (fetch_loop e ?c fuel (Some ?u) ?w1)"
    using None by (simp add: download_submissions_def Let_def split_beta)
  then show ?thesis
  proof
    assume "?w' = emit (MakeDirs out) w"
    then show ?thesis by simp
  next
    assume w': "?w' = snd (fetch_loop e ?c fuel (Some ?u) ?w1)"
    from grows_fetch_loop [OF emits_carries, of ?c ?w1 e fuel "Some ?u"]
    have "grows (carries ?c) ?w1 ?w'" using w' by simp
    from grows_requests [OF this] hr show ?thesis by simp
  qed
qed

text \<open>
  C3, as the code has it. Every request of a run is either a download, which carries
  no query parameters, or a page request, which carries the query parameters
  \<open>include[]\<close> and \<open>per_page\<close>: the request of every turn of the loop, for the first
  page and for every later page alike, is sent with them. What a turn hands to the
  next one is the page address alone.
\<close>

theorem page_requests_params:
  "(\<forall>rq \<in> set (drop (length (http_requests w))
      (http_requests (snd (download_submissions e fuel api_key base_url course_id assignment_id
         out conv w)))).
     if req_stream rq then req_params rq = None else req_params rq = Some assignment_params) \<and>
   (\<exists>post. trace (snd (fetch_step e c u w0)) =
      trace w0 @ HttpGet \<lparr>req_url = u, req_auth = c_auth c, req_params = Some (c_params c),
                           req_stream = False\<rparr> # post)"
  using download_submissions_requests [of w e fuel api_key base_url course_id assignment_id out conv]
    fetch_step_first_event [of e c u w0]
  by (simp add: page_request_def)


text \<open>A listing of two pages: the request for the second page, whose address came from
  the link header of the first, carries the query parameters again.\<close>

theorem page_requests_params_counterexample:
  "map req_url (http_requests (snd (download_submissions
      (server_env (chain [first_page, ''https://h/p2'']))
      (Suc (Suc (Suc 0))) (PyStr ''key'') (PyStr ''https://h/'') (PyInt 1) (PyInt 2) ''out'' None
      (example_world [])))) = [first_page, ''https://h/p2''] \<and>
   map req_params (http_requests (snd (download_submissions
      (server_env (chain [first_page, ''https://h/p2'']))
      (Suc (Suc (Suc 0))) (PyStr ''key'') (PyStr ''https://h/'') (PyInt 1) (PyInt 2) ''out'' None
      (example_world [])))) = [Some assignment_params, Some assignment_params]"
  unfolding sample_download by (simp add: run_simps)


theorem page_requests_params_witness:
  "req_url (http_requests (snd (download_submissions
      (server_env (chain [first_page, ''https://h/p2'']))
      (Suc (Suc 0)) (PyStr ''key'') (PyStr ''https://h/'') (PyInt 1) (PyInt 2) ''out'' None
      (example_world []))) ! 1) = ''https://h/p2'' \<and>
   req_params (http_requests (snd (download_submissions
      (server_env (chain [first_page, ''https://h/p2'']))
      (Suc (Suc 0)) (PyStr ''key'') (PyStr ''https://h/'') (PyInt 1) (PyInt 2) ''out'' None
      (example_world []))) ! 1) = Some assignment_params"
proof -
  let ?run = "download_submissions (server_env (chain [first_page, ''https://h/p2'']))
      (Suc (Suc 0)) (PyStr ''key'') (PyStr ''https://h/'') (PyInt 1) (PyInt 2) ''out'' None
      (example_world [])"
  let ?xs = "http_requests (snd ?run)"
  let ?f = "\<lambda>rq. (req_url rq, req_stream rq)"
  have rq: "map ?f ?xs = [(first_page, False), (''https://h/p2'', False)]"
    unfolding sample_download by (simp add: run_simps)
  from rq have "length (map ?f ?xs) = length [(first_page, False), (''https://h/p2'', False)]"
    by (rule arg_cong)
  then have len: "length ?xs = 2" by simp
  from rq have "map ?f ?xs ! 1 = [(first_page, False), (''https://h/p2'', False)] ! 1"
    by (rule arg_cong)
  with len have second: "?f (?xs ! 1) = (''https://h/p2'', False)" by simp
  have w0: "http_requests (example_world []) = []"
    by (simp add: http_requests_def example_world_def List.map_filter_def)
  from len have mem: "?xs ! 1 \<in> set ?xs" by simp
  from page_requests_params [of "example_world []"
      "server_env (chain [first_page, ''https://h/p2''])"
      "Suc (Suc 0)" "PyStr ''key''" "PyStr ''https://h/''" "PyInt 1" "PyInt 2" "''out''" None]
  have "\<forall>rq \<in> set (drop (length (http_requests (example_world []))) ?xs).
     if req_stream rq then req_params rq = None else req_params rq = Some assignment_params"
    by (rule conjunct1)
  with w0 mem have "if req_stream (?xs ! 1) then req_params (?xs ! 1) = None
      else req_params (?xs ! 1) = Some assignment_params"
    by simp
  with second show ?thesis by simp
qed

end
